theory Spec2Isabelle
  imports Complex_Main "HOL-Library.Word" "HOL-Library.AList"
begin

section \<open>Data model of the wave function collapse hook\<close>

text \<open>
  The hook \<open>useWaveFunctionCollapse\<close> keeps five pieces of state (wave, adjacencies,
  entropy, patterns, frequencies) and exports two operations, \<open>setup\<close> and \<open>draw\<close>.
  A JavaScript \<open>Set\<close> and \<open>Map\<close> iterate in insertion order, and the code depends on that
  order (the search for the minimum entropy, the weighted pool), so a \<open>Set\<close> is a list
  without repetition in insertion order and a \<open>Map\<close> is an association list:
  \<open>AList.update\<close> overwrites the value of a present key in place and appends an absent
  key, as \<open>Map.set\<close> does, \<open>AList.delete\<close> is \<open>Map.delete\<close> and \<open>map_of\<close> is \<open>Map.get\<close>.
  Cell indices and pattern ids are natural numbers. The entropies and the values of
  \<open>Math.random()\<close> are doubles in the source and real numbers here.
\<close>

text \<open>A channel read from the \<open>Uint8ClampedArray\<close>; \<open>None\<close> is the \<open>undefined\<close> of a read
  past the end of the buffer.\<close>

type_synonym channel = "8 word option"
type_synonym pixel = "channel list"
type_synonym pattern = "pixel list list"

text \<open>A pattern id as \<open>draw\<close> handles it: \<open>None\<close> is the \<open>undefined\<close> that indexing the
  weighted pool out of range yields.\<close>

type_synonym pid = "nat option"

datatype error = TypeError

record state =
  wave :: "(nat \<times> pid list) list"
  adjacencies :: "nat list list list"
  entropy :: "(nat \<times> real) list"
  patterns :: "pattern list"
  frequencies :: "nat list"

text \<open>\<open>Set.add\<close>: an element already present keeps its place.\<close>

definition set_add :: "'a \<Rightarrow> 'a list \<Rightarrow> 'a list" where
  "set_add x xs = (if x \<in> set xs then xs else xs @ [x])"

text \<open>\<open>Map.has\<close> on an association list.\<close>

definition has :: "('k \<times> 'v) list \<Rightarrow> 'k \<Rightarrow> bool" where
  "has m k = (k \<in> fst ` set m)"

section \<open>Pattern library builder (setup)\<close>

definition directions :: "(int \<times> int) list" where
  "directions = [(-1, 0), (1, 0), (0, -1), (0, 1)]"

text \<open>\<open>directionMapping\<close> is a dictionary with four keys; any other key reads \<open>undefined\<close>.\<close>

definition directionMapping :: "int \<times> int \<Rightarrow> nat option" where
  "directionMapping d =
     (if d = (-1, 0) then Some 0
      else if d = (1, 0) then Some 1
      else if d = (0, -1) then Some 2
      else if d = (0, 1) then Some 3
      else None)"

text \<open>\<open>flat.filter((_, i) => P i)\<close>: keep the elements whose index satisfies \<open>P\<close>.\<close>

definition filter_index :: "(nat \<Rightarrow> bool) \<Rightarrow> 'a list \<Rightarrow> 'a list" where
  "filter_index P xs = map snd (filter (\<lambda>(i, x). P i) (enumerate 0 xs))"

text \<open>
  \<open>isHorizontallyAdjacent\<close>: pattern1 without its last column equals pattern2 without
  its first column. The patterns are compared through \<open>JSON.stringify\<close>, which is
  injective on arrays of arrays of channels, so the comparison is equality.
  For \<open>N = 0\<close> the remainder \<open>i % N\<close> is \<open>NaN\<close>, which differs from both \<open>N - 1\<close> and \<open>0\<close>,
  so both filters keep every element.
\<close>

definition isHorizontallyAdjacent :: "pattern \<Rightarrow> pattern \<Rightarrow> nat \<Rightarrow> bool" where
  "isHorizontallyAdjacent pattern1 pattern2 N =
     (let flat1 = concat pattern1;
          flat2 = concat pattern2;
          pattern1LeftEdge = (if N = 0 then flat1 else filter_index (\<lambda>i. i mod N \<noteq> N - 1) flat1);
          pattern2RightEdge = (if N = 0 then flat2 else filter_index (\<lambda>i. i mod N \<noteq> 0) flat2)
      in pattern1LeftEdge = pattern2RightEdge)"

text \<open>\<open>isVerticallyAdjacent\<close>: pattern1 without its last row equals pattern2 without its
  first row (\<open>slice(0, N*N - N)\<close> against \<open>slice(N)\<close>).\<close>

definition isVerticallyAdjacent :: "pattern \<Rightarrow> pattern \<Rightarrow> nat \<Rightarrow> bool" where
  "isVerticallyAdjacent pattern1 pattern2 N =
     (let flat1 = concat pattern1;
          flat2 = concat pattern2;
          pattern1Top = take (N * N - N) flat1;
          pattern2Bottom = drop N flat2
      in pattern1Top = pattern2Bottom)"

text \<open>The kernel of offsets \<open>i + n * imageWidth\<close>, one row per \<open>n\<close>.\<close>

definition kernel :: "nat \<Rightarrow> nat \<Rightarrow> nat list list" where
  "kernel patternDim imageWidth =
     map (\<lambda>n. map (\<lambda>i. i + n * imageWidth) [0..<patternDim]) [0..<patternDim]"

text \<open>A read of the pixel buffer; out of range it is \<open>undefined\<close>.\<close>

definition image_at :: "8 word list \<Rightarrow> nat \<Rightarrow> channel" where
  "image_at imageData i = (if i < length imageData then Some (imageData ! i) else None)"

text \<open>The window \<open>cmat\<close> at position \<open>(x, y)\<close>. It is only built inside the two loops over
  the sample, where \<open>imageWidth\<close> and \<open>imageHeight\<close> are positive.\<close>

definition cmat :: "8 word list \<Rightarrow> nat \<Rightarrow> nat \<Rightarrow> nat list list \<Rightarrow> nat \<Rightarrow> nat \<Rightarrow> pattern" where
  "cmat imageData imageWidth imageHeight ker x y =
     map (\<lambda>row. map (\<lambda>offset.
       (let pixelX = (x + offset) mod imageWidth;
            pixelY = ((offset + imageWidth * y) div imageWidth) mod imageHeight;
            pixelIndex = (pixelY * imageWidth + pixelX) * 4
        in [image_at imageData pixelIndex, image_at imageData (pixelIndex + 1),
            image_at imageData (pixelIndex + 2), image_at imageData (pixelIndex + 3)])) row) ker"

text \<open>
  \<open>rotate90\<close> reads \<open>matrix[0].length\<close> first, a \<open>TypeError\<close> on the empty matrix. Row \<open>x\<close> of
  the result is column \<open>x\<close> of the matrix read from the last row up. The matrices that
  setup rotates are square, so every read \<open>matrix[y][x]\<close> is in range
  (lemma \<open>rotate90_square\<close>).
\<close>

definition rotate90 :: "'a list list \<Rightarrow> error + 'a list list" where
  "rotate90 matrix =
     (case matrix of
        [] \<Rightarrow> Inl TypeError
      | row0 # _ \<Rightarrow>
          Inr (map (\<lambda>x. map (\<lambda>y. matrix ! y ! x) (rev [0..<length matrix])) [0..<length row0]))"

text \<open>
  The loop \<open>for (r = 0; r < 4; r++)\<close>, with the number of rounds left as the first
  argument: each round pushes the current pattern, its vertical flip
  (\<open>slice().reverse()\<close>) and its horizontal flip (every row reversed), then rotates.
\<close>

fun variants :: "nat \<Rightarrow> 'a list list \<Rightarrow> 'a list list list \<Rightarrow> error + 'a list list list" where
  "variants 0 currentPattern allPatterns = Inr allPatterns"
| "variants (Suc r) currentPattern allPatterns =
     (case rotate90 currentPattern of
        Inl e \<Rightarrow> Inl e
      | Inr rotated \<Rightarrow>
          variants r rotated
            (allPatterns @ [currentPattern, rev currentPattern, map rev currentPattern]))"

text \<open>The positions in the order of the two loops: \<open>y\<close> outside, \<open>x\<close> inside.\<close>

definition positions :: "nat \<Rightarrow> nat \<Rightarrow> (nat \<times> nat) list" where
  "positions imageWidth imageHeight =
     concat (map (\<lambda>y. map (\<lambda>x. (x, y)) [0..<imageWidth]) [0..<imageHeight])"

fun extract_patterns :: "8 word list \<Rightarrow> nat \<Rightarrow> nat \<Rightarrow> nat list list \<Rightarrow> (nat \<times> nat) list \<Rightarrow>
    pattern list \<Rightarrow> error + pattern list" where
  "extract_patterns imageData imageWidth imageHeight ker [] allPatterns = Inr allPatterns"
| "extract_patterns imageData imageWidth imageHeight ker ((x, y) # ps) allPatterns =
     (case variants 4 (cmat imageData imageWidth imageHeight ker x y) allPatterns of
        Inl e \<Rightarrow> Inl e
      | Inr allPatterns' \<Rightarrow> extract_patterns imageData imageWidth imageHeight ker ps allPatterns')"

text \<open>
  Deduplication. The key of a pattern is its \<open>JSON.stringify\<close>, modelled by the pattern
  itself. The accumulator is \<open>(patternCounts, uniquePatterns, patternIndexMap)\<close>.
\<close>

type_synonym dedup = "(pattern \<times> nat) list \<times> pattern list \<times> (pattern \<times> nat) list"

definition count_pattern :: "pattern \<Rightarrow> dedup \<Rightarrow> dedup" where
  "count_pattern p acc =
     (case acc of (patternCounts, uniquePatterns, patternIndexMap) \<Rightarrow>
        (case map_of patternCounts p of
           Some c \<Rightarrow> (AList.update p (c + 1) patternCounts, uniquePatterns, patternIndexMap)
         | None \<Rightarrow>
             (AList.update p 1 patternCounts,
              uniquePatterns @ [p],
              AList.update p (length uniquePatterns) patternIndexMap)))"

definition deduplicate :: "pattern list \<Rightarrow> dedup" where
  "deduplicate allPatterns = fold count_pattern allPatterns ([], [], [])"

text \<open>\<open>freqs[index] = count\<close> for every entry of \<open>patternCounts\<close>; an index at or past the
  length of the array does not occur (every key of \<open>patternCounts\<close> has an index below
  the number of unique patterns) and leaves the array as it is here.\<close>

definition fill_freqs :: "dedup \<Rightarrow> nat list" where
  "fill_freqs acc =
     (case acc of (patternCounts, uniquePatterns, patternIndexMap) \<Rightarrow>
        fold (\<lambda>(key, count) freqs.
               (case map_of patternIndexMap key of
                  Some index \<Rightarrow> freqs[index := count]
                | None \<Rightarrow> freqs))
             patternCounts (replicate (length uniquePatterns) 0))"

text \<open>\<open>initAdjacencies.get(i)?.[d].add(j)\<close>: nothing happens when \<open>i\<close> is not a key.\<close>

definition adj_add :: "nat \<Rightarrow> nat \<Rightarrow> nat \<Rightarrow> nat list list list \<Rightarrow> nat list list list" where
  "adj_add i d j adj =
     (if i < length adj then adj[i := (adj ! i)[d := set_add j (adj ! i ! d)]] else adj)"

definition adj_step :: "pattern list \<Rightarrow> nat \<Rightarrow> nat \<Rightarrow> nat \<Rightarrow> nat list list list \<Rightarrow> nat list list list" where
  "adj_step initPatterns patternDim i j adj =
     (let adj1 = (if isHorizontallyAdjacent (initPatterns ! i) (initPatterns ! j) patternDim
                  then adj_add j 1 i (adj_add i 0 j adj) else adj)
      in if isVerticallyAdjacent (initPatterns ! i) (initPatterns ! j) patternDim
         then adj_add j 3 i (adj_add i 2 j adj1) else adj1)"

definition initAdjacencies :: "pattern list \<Rightarrow> nat \<Rightarrow> nat list list list" where
  "initAdjacencies initPatterns patternDim =
     (let numberOfUniquePatterns = length initPatterns
      in fold (\<lambda>i adj. fold (adj_step initPatterns patternDim i) [0..<numberOfUniquePatterns] adj)
           [0..<numberOfUniquePatterns]
           (replicate numberOfUniquePatterns (map (\<lambda>_. []) directions)))"

text \<open>
  \<open>setup\<close>. The parameters \<open>outputDimWidth\<close>, \<open>outputDimHeight\<close> and \<open>patternDim\<close> are those of
  the hook; \<open>r\<close> is the value of the one call of \<open>Math.random()\<close>. The canvas dimensions
  only enter the two cell dimensions (a division that never throws), which no
  operation of the engine reads back, so they are left out. \<open>initPatterns\<close> is a copy
  of the unique patterns made through JSON, in which \<open>undefined\<close> becomes \<open>null\<close>; the
  adjacency tests compare through \<open>JSON.stringify\<close>, which writes both as \<open>null\<close>, so
  the copy is the list of unique patterns itself here. The result is the state that
  the five setters install, or the exception that leaves the old state in place.
\<close>

definition setup_engine :: "nat \<Rightarrow> nat \<Rightarrow> nat \<Rightarrow> real \<Rightarrow> 8 word list \<Rightarrow> nat \<Rightarrow> nat \<Rightarrow> error + state" where
  "setup_engine outputDimWidth outputDimHeight patternDim r imageData imageWidth imageHeight =
     (case extract_patterns imageData imageWidth imageHeight (kernel patternDim imageWidth)
             (positions imageWidth imageHeight) [] of
        Inl e \<Rightarrow> Inl e
      | Inr allPatterns \<Rightarrow>
          (let acc = deduplicate allPatterns;
               uniquePatterns = fst (snd acc);
               numberOfUniquePatterns = length uniquePatterns;
               freqs = fill_freqs acc;
               cells = outputDimWidth * outputDimHeight;
               waveInit = map (\<lambda>i. (i, map Some [0..<numberOfUniquePatterns])) [0..<cells];
               initEntropy = map (\<lambda>i. (i, real numberOfUniquePatterns)) [0..<cells];
               randomPatternIndex = nat \<lfloor>r * real cells\<rfloor>
           in Inr \<lparr> wave = waveInit,
                    adjacencies = initAdjacencies uniquePatterns patternDim,
                    entropy = AList.update randomPatternIndex (real numberOfUniquePatterns - 1) initEntropy,
                    patterns = uniquePatterns,
                    frequencies = freqs \<rparr>))"

section \<open>Wave engine (draw)\<close>

text \<open>
  The three values that \<open>draw\<close> returns: \<open>null\<close>, \<open>undefined\<close> (the bare \<open>return;\<close>) and the
  record, of which the selected pattern and the index of the collapsed cell are kept.
\<close>

datatype outcome = Null | Undefined | Result pattern nat

text \<open>\<open>findMinEntropyKey\<close>: the first key, in insertion order, with the strictly smallest
  value. \<open>minValue\<close> starts at \<open>Infinity\<close>, here \<open>None\<close>.\<close>

definition findMinEntropyKey :: "(nat \<times> real) list \<Rightarrow> nat option" where
  "findMinEntropyKey entropyMap =
     fst (fold (\<lambda>(key, value) (minKey, minValue).
                 if (case minValue of None \<Rightarrow> True | Some m \<Rightarrow> value < m)
                 then (Some key, Some value) else (minKey, minValue))
               entropyMap (None, None))"

text \<open>The number of rounds of \<open>for (i = 0; i < freq; i++)\<close> with \<open>freq = frequencies[idP]\<close>: none
  when the read is \<open>undefined\<close>.\<close>

definition freq_of :: "nat list \<Rightarrow> pid \<Rightarrow> nat" where
  "freq_of freqs idP =
     (case idP of None \<Rightarrow> 0 | Some i \<Rightarrow> if i < length freqs then freqs ! i else 0)"

text \<open>
  \<open>selectRandomPattern\<close>; the outer \<open>None\<close> is \<open>null\<close>. The test \<open>if (entropyMin)\<close> is false
  for \<open>null\<close> and for the number \<open>0\<close>. \<open>r\<close> is the value of \<open>Math.random()\<close>.
\<close>

definition selectRandomPattern :: "(nat \<times> pid list) list \<Rightarrow> nat option \<Rightarrow> nat list \<Rightarrow> real \<Rightarrow> pid option" where
  "selectRandomPattern w entropyMin freqs r =
     (case entropyMin of
        None \<Rightarrow> None
      | Some c \<Rightarrow>
          if c = 0 then None
          else (case map_of w c of
                  None \<Rightarrow> None
                | Some possiblePatterns \<Rightarrow>
                    if possiblePatterns = [] then None
                    else (let weightedPatterns =
                                concat (map (\<lambda>idP. replicate (freq_of freqs idP) idP) possiblePatterns);
                              randomIndex = \<lfloor>r * real (length weightedPatterns)\<rfloor>
                          in Some (if 0 \<le> randomIndex \<and> nat randomIndex < length weightedPatterns
                                   then weightedPatterns ! nat randomIndex else None))))"

definition isSubSetOf :: "'a list \<Rightarrow> 'a list \<Rightarrow> bool" where
  "isSubSetOf sub super = list_all (\<lambda>elem. elem \<in> set super) sub"

definition intersectSets :: "'a list \<Rightarrow> 'a list \<Rightarrow> 'a list" where
  "intersectSets setA setB =
     fold (\<lambda>elem intersection. if elem \<in> set setB then set_add elem intersection else intersection)
          setA []"

text \<open>
  The state of the propagation loop: the two live maps, the stack with its top at the
  head of the list, and the number of calls of \<open>Math.random()\<close> made by this \<open>draw\<close> so far.
\<close>

record pstate =
  drawWave :: "(nat \<times> pid list) list"
  drawEntropy :: "(nat \<times> real) list"
  stack :: "nat list"
  calls :: nat

datatype flow = Contradiction pstate | Continue pstate

text \<open>The patterns that could be placed in direction \<open>d\<close> of a cell holding the patterns
  \<open>currentCellPatterns\<close>.\<close>

definition possible :: "nat list list list \<Rightarrow> pid list option \<Rightarrow> int \<times> int \<Rightarrow> pid list" where
  "possible adj currentCellPatterns d =
     (case currentCellPatterns of
        None \<Rightarrow> []
      | Some cps \<Rightarrow>
          fold (\<lambda>idP possiblePatterns.
                 (case idP of
                    None \<Rightarrow> possiblePatterns
                  | Some i \<Rightarrow>
                      if i < length adj
                      then (case directionMapping d of
                              None \<Rightarrow> possiblePatterns
                            | Some dir \<Rightarrow>
                                if dir < length (adj ! i)
                                then fold (\<lambda>pattern. set_add (Some pattern)) (adj ! i ! dir) possiblePatterns
                                else possiblePatterns)
                      else possiblePatterns))
               cps [])"

text \<open>
  The neighbour of the cell \<open>cur\<close> in direction \<open>d\<close>: the column \<open>x\<close> is taken modulo the
  width, the row \<open>y\<close> is tested against \<open>0 <= y < outputDimHeight\<close>; \<open>None\<close> when the test
  fails. For \<open>outputDimWidth = 0\<close> the column is \<open>NaN\<close> and the row \<open>Infinity\<close> or \<open>NaN\<close>,
  so the test fails.
\<close>

definition neighbor :: "nat \<Rightarrow> nat \<Rightarrow> nat \<Rightarrow> int \<times> int \<Rightarrow> nat option" where
  "neighbor outputDimWidth outputDimHeight cur d =
     (if outputDimWidth = 0 then None
      else (let x = (int (cur mod outputDimWidth) + fst d + int outputDimWidth) mod int outputDimWidth;
                y = int (cur div outputDimWidth) + snd d
            in if 0 \<le> y \<and> y < int outputDimHeight
               then Some (nat (x + y * int outputDimWidth))
               else None))"

text \<open>
  The body of \<open>for (const [dx, dy] of directions)\<close> for the cell \<open>cur\<close>. \<open>rnd\<close> numbers the
  values of \<open>Math.random()\<close>. A contradiction returns from \<open>draw\<close> with the maps as they
  are at that moment.
\<close>

definition visit :: "nat \<Rightarrow> nat \<Rightarrow> nat list list list \<Rightarrow> (nat \<Rightarrow> real) \<Rightarrow> nat \<Rightarrow> int \<times> int \<Rightarrow> pstate \<Rightarrow> flow" where
  "visit outputDimWidth outputDimHeight adj rnd cur d s =
     (case neighbor outputDimWidth outputDimHeight cur d of
        None \<Rightarrow> Continue s
      | Some neighborElementIndex \<Rightarrow>
          if has (drawEntropy s) neighborElementIndex
          then (let possiblePatterns = possible adj (map_of (drawWave s) cur) d;
                    availablePatterns =
                      (case map_of (drawWave s) neighborElementIndex of
                         None \<Rightarrow> [] | Some a \<Rightarrow> a)
                in if \<not> isSubSetOf availablePatterns possiblePatterns
                   then (let intersectedPatterns = intersectSets possiblePatterns availablePatterns
                         in if intersectedPatterns = [] then Contradiction s
                            else Continue
                              (s\<lparr> drawWave := AList.update neighborElementIndex intersectedPatterns (drawWave s),
                                  drawEntropy := AList.update neighborElementIndex
                                    (real (length intersectedPatterns) - rnd (calls s) * (1 / 10))
                                    (drawEntropy s),
                                  stack := neighborElementIndex # stack s,
                                  calls := Suc (calls s) \<rparr>))
                   else Continue s)
          else Continue s)"

fun visit_all :: "nat \<Rightarrow> nat \<Rightarrow> nat list list list \<Rightarrow> (nat \<Rightarrow> real) \<Rightarrow> nat \<Rightarrow> (int \<times> int) list \<Rightarrow> pstate \<Rightarrow> flow" where
  "visit_all outputDimWidth outputDimHeight adj rnd cur [] s = Continue s"
| "visit_all outputDimWidth outputDimHeight adj rnd cur (d # ds) s =
     (case visit outputDimWidth outputDimHeight adj rnd cur d s of
        Contradiction s' \<Rightarrow> Contradiction s'
      | Continue s' \<Rightarrow> visit_all outputDimWidth outputDimHeight adj rnd cur ds s')"

text \<open>The loop \<open>while (stack.length > 0)\<close>. \<open>None\<close> stands for a loop that never ends.\<close>

partial_function (option) propagate :: "nat \<Rightarrow> nat \<Rightarrow> nat list list list \<Rightarrow> (nat \<Rightarrow> real) \<Rightarrow> pstate \<Rightarrow> flow option" where
  "propagate outputDimWidth outputDimHeight adj rnd s =
     (case stack s of
        [] \<Rightarrow> Some (Continue s)
      | currentElementIndex # rest \<Rightarrow>
          (case visit_all outputDimWidth outputDimHeight adj rnd currentElementIndex directions
                  (s\<lparr>stack := rest\<rparr>) of
             Contradiction s' \<Rightarrow> Some (Contradiction s')
           | Continue s' \<Rightarrow> propagate outputDimWidth outputDimHeight adj rnd s'))"

declare propagate.simps [code]

text \<open>
  \<open>draw\<close>. \<open>drawWave\<close> and \<open>drawEntropy\<close> are the hook's own maps, not copies, so every
  \<open>set\<close> and \<open>delete\<close> changes the state of the hook at once, whatever \<open>draw\<close> returns
  later: the state returned with each outcome holds the maps as they are at that
  return. \<open>None\<close> stands for a call that never returns.
\<close>

definition draw :: "nat \<Rightarrow> nat \<Rightarrow> state \<Rightarrow> (nat \<Rightarrow> real) \<Rightarrow> (outcome \<times> state) option" where
  "draw outputDimWidth outputDimHeight st rnd =
     (if entropy st = [] then Some (Null, st)
      else (case findMinEntropyKey (entropy st) of
              None \<Rightarrow> Some (Null, st)
            | Some entropyMin \<Rightarrow>
                (case selectRandomPattern (wave st) (Some entropyMin) (frequencies st) (rnd 0) of
                   None \<Rightarrow> Some (Null, st)
                 | Some selectedPatternId \<Rightarrow>
                     (case propagate outputDimWidth outputDimHeight (adjacencies st) rnd
                             \<lparr> drawWave = AList.update entropyMin [selectedPatternId] (wave st),
                               drawEntropy = AList.delete entropyMin (entropy st),
                               stack = [entropyMin],
                               calls = 1 \<rparr> of
                        None \<Rightarrow> None
                      | Some (Contradiction s) \<Rightarrow>
                          Some (Undefined, st\<lparr>wave := drawWave s, entropy := drawEntropy s\<rparr>)
                      | Some (Continue s) \<Rightarrow>
                          (let st' = st\<lparr>wave := drawWave s, entropy := drawEntropy s\<rparr>
                           in (case selectedPatternId of
                                 None \<Rightarrow> Some (Null, st')
                               | Some i \<Rightarrow>
                                   if i < length (patterns st)
                                   then Some (Result (patterns st ! i) entropyMin, st')
                                   else Some (Null, st')))))))"

section \<open>Notions used to state the properties\<close>

text \<open>A matrix of \<open>n\<close> rows of \<open>n\<close> entries each.\<close>

definition square :: "nat \<Rightarrow> 'a list list \<Rightarrow> bool" where
  "square n m = (length m = n \<and> (\<forall>row \<in> set m. length row = n))"

text \<open>The domain of a cell as \<open>draw\<close> reads it: \<open>drawWave.get(c) ?? []\<close>.\<close>

definition domain_of :: "(nat \<times> pid list) list \<Rightarrow> nat \<Rightarrow> pid list" where
  "domain_of w c = (case map_of w c of None \<Rightarrow> [] | Some a \<Rightarrow> a)"

text \<open>The sum of the sizes of the domains of the cells that are still in the entropy
  map: the quantity that every push onto the stack decreases.\<close>

definition weight :: "pstate \<Rightarrow> nat" where
  "weight s = (\<Sum>c \<in> fst ` set (drawEntropy s). card (set (domain_of (drawWave s) c)))"

text \<open>\<open>adjacency[i][d]\<close> read as a set of pattern ids, empty where the table has no entry.\<close>

definition adjacent :: "nat list list list \<Rightarrow> nat \<Rightarrow> nat \<Rightarrow> nat set" where
  "adjacent adj i d = (if i < length adj \<and> d < length (adj ! i) then set (adj ! i ! d) else {})"

text \<open>A table with one entry per pattern and four sets per entry.\<close>

definition table_ok :: "nat \<Rightarrow> nat list list list \<Rightarrow> bool" where
  "table_ok P adj = (length adj = P \<and> (\<forall>i<P. length (adj ! i) = 4))"

text \<open>A sample of \<open>w * h\<close> pixels that all have the four channels \<open>px\<close>.\<close>

definition uniform_sample :: "8 word list \<Rightarrow> nat \<Rightarrow> nat \<Rightarrow> 8 word list \<Rightarrow> bool" where
  "uniform_sample imageData w h px = (length px = 4 \<and> imageData = concat (replicate (w * h) px))"

text \<open>
  The states of a run on the library of a uniform sample: every cell of the grid has
  the domain \<open>{0}\<close>, pattern 0 is compatible with itself in the four directions, and
  there is one pattern with a positive frequency.
\<close>

definition single_pattern_state :: "nat \<Rightarrow> nat \<Rightarrow> state \<Rightarrow> bool" where
  "single_pattern_state W H st =
     (wave st = map (\<lambda>i. (i, [Some 0])) [0..<W * H]
      \<and> adjacencies st = [[[0], [0], [0], [0]]]
      \<and> (\<exists>f p. 0 < f \<and> frequencies st = [f] \<and> patterns st = [p]))"

text \<open>Every entry of the wave holds a domain with at least one pattern id.\<close>

definition nonempty_domains :: "(nat \<times> pid list) list \<Rightarrow> bool" where
  "nonempty_domains w = (\<forall>(c, d) \<in> set w. d \<noteq> [])"

text \<open>
  A driver calling \<open>draw\<close> again and again, whatever the outcomes: one random source
  per call; the outcomes in order and the state after the last call.
\<close>

fun draws :: "nat \<Rightarrow> nat \<Rightarrow> state \<Rightarrow> (nat \<Rightarrow> real) list \<Rightarrow> (outcome list \<times> state) option" where
  "draws W H st [] = Some ([], st)"
| "draws W H st (rnd # rnds) =
     (case draw W H st rnd of
        None \<Rightarrow> None
      | Some (out, st') \<Rightarrow>
          (case draws W H st' rnds of
             None \<Rightarrow> None
           | Some (outs, st'') \<Rightarrow> Some (out # outs, st'')))"

text \<open>The maps as the loop leaves them, on either exit.\<close>

fun flow_state :: "flow \<Rightarrow> pstate" where
  "flow_state (Contradiction s) = s"
| "flow_state (Continue s) = s"

subsection \<open>Two concrete runs\<close>

text \<open>
  A sample of three pixels in one row, black, black, white, read with pattern
  dimension 3 for a grid of two cells in one row; \<open>state3\<close> is what \<open>setup\<close> installs
  when its random number is \<open>1/2\<close> (lemma \<open>sample3_setup\<close>).
\<close>

definition sample3 :: "8 word list" where
  "sample3 = [0, 0, 0, 255, 0, 0, 0, 255, 255, 255, 255, 255]"

definition state3 :: state where
  "state3 =
     (let a = [Some 0, Some 0, Some 0, Some 255]; b = [Some 255, Some 255, Some 255, Some 255]
      in \<lparr> wave = [(0, map Some [0..<6]), (1, map Some [0..<6])],
           adjacencies = [[[1], [4], [0], [0]], [[4], [0], [1], [1]], [[2], [2], [3], [5]],
                          [[3], [3], [5], [2]], [[0], [1], [4], [4]], [[5], [5], [2], [3]]],
           entropy = [(0, 6), (1, 5)],
           patterns = [[[a, a, b], [a, a, b], [a, a, b]], [[b, a, a], [b, a, a], [b, a, a]],
                       [[a, a, a], [a, a, a], [b, b, b]], [[b, b, b], [a, a, a], [a, a, a]],
                       [[a, b, a], [a, b, a], [a, b, a]], [[a, a, a], [b, b, b], [a, a, a]]],
           frequencies = [6, 6, 6, 6, 6, 6] \<rparr>)"

text \<open>What \<open>setup\<close> installs for a sample of one pixel, pattern dimension 1, a grid of
  two cells in one row and the random number 0.\<close>

definition state1 :: state where
  "state1 = \<lparr> wave = [(0, [Some 0]), (1, [Some 0])], adjacencies = [[[0], [0], [0], [0]]],
              entropy = [(0, 0), (1, 1)], patterns = [[[[Some 7, Some 7, Some 7, Some 7]]]],
              frequencies = [12] \<rparr>"

text \<open>A sample of two rows of two pixels, all four different.\<close>

definition sample4 :: "8 word list" where
  "sample4 = [1, 1, 1, 255, 2, 2, 2, 255, 3, 3, 3, 255, 4, 4, 4, 255]"

section \<open>Symmetry variants of a window\<close>

lemma set_set_add: "set (set_add x xs) = insert x (set xs)"
  by (auto simp: set_add_def)

lemma rotate90_square:
  assumes "square n m" and "0 < n"
  shows "\<exists>r. rotate90 m = Inr r \<and> square n r \<and> (\<forall>i<n. \<forall>j<n. r ! i ! j = m ! (n - 1 - j) ! i)"
proof -
  from assms obtain row0 rest where m: "m = row0 # rest"
    by (cases m) (auto simp: square_def)
  with assms have len0: "length row0 = n" and lenm: "length m = n"
    by (auto simp: square_def)
  let ?r = "map (\<lambda>x. map (\<lambda>y. m ! y ! x) (rev [0..<length m])) [0..<length row0]"
  have r: "rotate90 m = Inr ?r"
    by (simp add: rotate90_def m)
  have sq: "square n ?r"
    by (simp add: square_def len0 lenm)
  have nth: "\<forall>i<n. \<forall>j<n. ?r ! i ! j = m ! (n - 1 - j) ! i"
    by (simp add: len0 lenm rev_nth)
  from r sq nth show ?thesis by blast
qed

lemma square_cmat: "square patternDim (cmat imageData w h (kernel patternDim w) x y)"
  by (simp add: square_def cmat_def kernel_def)

lemma variants_square:
  assumes "square n c" and "0 < n"
  shows "\<exists>r1 r2 r3. rotate90 c = Inr r1 \<and> rotate90 r1 = Inr r2 \<and> rotate90 r2 = Inr r3
     \<and> (\<forall>i<n. \<forall>j<n. r1 ! i ! j = c ! (n - 1 - j) ! i)
     \<and> (\<forall>i<n. \<forall>j<n. r2 ! i ! j = r1 ! (n - 1 - j) ! i)
     \<and> (\<forall>i<n. \<forall>j<n. r3 ! i ! j = r2 ! (n - 1 - j) ! i)
     \<and> (\<forall>acc. variants 4 c acc =
          Inr (acc @ [c, rev c, map rev c, r1, rev r1, map rev r1,
                      r2, rev r2, map rev r2, r3, rev r3, map rev r3]))"
proof -
  from rotate90_square [OF assms] obtain r1 where
    r1: "rotate90 c = Inr r1" "square n r1" "\<forall>i<n. \<forall>j<n. r1 ! i ! j = c ! (n - 1 - j) ! i"
    by blast
  from rotate90_square [OF r1(2) assms(2)] obtain r2 where
    r2: "rotate90 r1 = Inr r2" "square n r2" "\<forall>i<n. \<forall>j<n. r2 ! i ! j = r1 ! (n - 1 - j) ! i"
    by blast
  from rotate90_square [OF r2(2) assms(2)] obtain r3 where
    r3: "rotate90 r2 = Inr r3" "square n r3" "\<forall>i<n. \<forall>j<n. r3 ! i ! j = r2 ! (n - 1 - j) ! i"
    by blast
  from rotate90_square [OF r3(2) assms(2)] obtain r4 where
    r4: "rotate90 r3 = Inr r4"
    by blast
  have "variants 4 c acc =
          Inr (acc @ [c, rev c, map rev c, r1, rev r1, map rev r1,
                      r2, rev r2, map rev r2, r3, rev r3, map rev r3])" for acc
    by (simp add: numeral_eq_Suc r1(1) r2(1) r3(1) r4)
  with r1 r2 r3 show ?thesis by blast
qed

lemma extract_length:
  assumes "0 < N"
  shows "\<exists>out. extract_patterns img w h (kernel N w) ps acc = Inr out
            \<and> length out = length acc + 12 * length ps"
proof (induction ps arbitrary: acc)
  case Nil
  show ?case by simp
next
  case (Cons p ps)
  obtain x y where p: "p = (x, y)" by (cases p)
  from variants_square [OF square_cmat assms, of img w h x y]
  obtain out where v: "variants 4 (cmat img w h (kernel N w) x y) acc = Inr out"
    and l: "length out = length acc + 12"
    by auto
  from Cons.IH [of out] v l show ?case
    by (auto simp: p)
qed

text \<open>
  C6. For a pattern dimension of at least 1, the window \<open>c\<close> sampled at any position
  \<open>(x, y)\<close> contributes exactly twelve patterns to \<open>allPatterns\<close>, before any
  deduplication: for each of the four quarter turns \<open>c\<close>, \<open>r1\<close>, \<open>r2\<close>, \<open>r3\<close> (each the
  previous one rotated by 90 degrees: entry \<open>(i, j)\<close> of the rotated matrix is entry
  \<open>(N - 1 - j, i)\<close> of the one before) the turned window itself, its row reversal and
  its reversal inside every row, in this order. These twelve are what the inner loop
  appends, they are the whole list extracted from the one position \<open>(x, y)\<close>, the
  extraction of a list of positions starting with \<open>(x, y)\<close> goes on from the list
  extended by them, and the extraction of any list of positions succeeds with
  twelve patterns more per position.
\<close>

theorem window_twelve_variants:
  assumes "0 < patternDim"
    and "c = cmat imageData imageWidth imageHeight (kernel patternDim imageWidth) x y"
  shows "\<exists>r1 r2 r3.
      rotate90 c = Inr r1 \<and> rotate90 r1 = Inr r2 \<and> rotate90 r2 = Inr r3
    \<and> (\<forall>i<patternDim. \<forall>j<patternDim. r1 ! i ! j = c ! (patternDim - 1 - j) ! i)
    \<and> (\<forall>i<patternDim. \<forall>j<patternDim. r2 ! i ! j = r1 ! (patternDim - 1 - j) ! i)
    \<and> (\<forall>i<patternDim. \<forall>j<patternDim. r3 ! i ! j = r2 ! (patternDim - 1 - j) ! i)
    \<and> (\<forall>allPatterns.
          variants 4 c allPatterns =
            Inr (allPatterns @ [c, rev c, map rev c, r1, rev r1, map rev r1,
                                r2, rev r2, map rev r2, r3, rev r3, map rev r3]))
    \<and> (\<forall>allPatterns.
          extract_patterns imageData imageWidth imageHeight (kernel patternDim imageWidth)
            [(x, y)] allPatterns =
            Inr (allPatterns @ [c, rev c, map rev c, r1, rev r1, map rev r1,
                                r2, rev r2, map rev r2, r3, rev r3, map rev r3]))
    \<and> (\<forall>ps allPatterns.
          extract_patterns imageData imageWidth imageHeight (kernel patternDim imageWidth)
            ((x, y) # ps) allPatterns =
          extract_patterns imageData imageWidth imageHeight (kernel patternDim imageWidth) ps
            (allPatterns @ [c, rev c, map rev c, r1, rev r1, map rev r1,
                            r2, rev r2, map rev r2, r3, rev r3, map rev r3]))
    \<and> (\<forall>ps allPatterns. \<exists>out.
          extract_patterns imageData imageWidth imageHeight (kernel patternDim imageWidth)
            ps allPatterns = Inr out
          \<and> length out = length allPatterns + 12 * length ps)"
proof -
  have sq: "square patternDim c"
    unfolding assms(2) by (rule square_cmat)
  from variants_square [OF sq assms(1)] obtain r1 r2 r3 where
    rot: "rotate90 c = Inr r1" "rotate90 r1 = Inr r2" "rotate90 r2 = Inr r3"
    and nth: "\<forall>i<patternDim. \<forall>j<patternDim. r1 ! i ! j = c ! (patternDim - 1 - j) ! i"
      "\<forall>i<patternDim. \<forall>j<patternDim. r2 ! i ! j = r1 ! (patternDim - 1 - j) ! i"
      "\<forall>i<patternDim. \<forall>j<patternDim. r3 ! i ! j = r2 ! (patternDim - 1 - j) ! i"
    and var: "\<forall>acc. variants 4 c acc =
          Inr (acc @ [c, rev c, map rev c, r1, rev r1, map rev r1,
                      r2, rev r2, map rev r2, r3, rev r3, map rev r3])"
    by blast
  have one: "\<forall>allPatterns.
          extract_patterns imageData imageWidth imageHeight (kernel patternDim imageWidth)
            [(x, y)] allPatterns =
            Inr (allPatterns @ [c, rev c, map rev c, r1, rev r1, map rev r1,
                                r2, rev r2, map rev r2, r3, rev r3, map rev r3])"
    using var by (simp add: assms(2))
  have step: "\<forall>ps allPatterns.
          extract_patterns imageData imageWidth imageHeight (kernel patternDim imageWidth)
            ((x, y) # ps) allPatterns =
          extract_patterns imageData imageWidth imageHeight (kernel patternDim imageWidth) ps
            (allPatterns @ [c, rev c, map rev c, r1, rev r1, map rev r1,
                            r2, rev r2, map rev r2, r3, rev r3, map rev r3])"
    using var by (simp add: assms(2))
  have len: "\<forall>ps allPatterns. \<exists>out.
          extract_patterns imageData imageWidth imageHeight (kernel patternDim imageWidth)
            ps allPatterns = Inr out
          \<and> length out = length allPatterns + 12 * length ps"
    using extract_length [OF assms(1)] by blast
  from rot nth var one step len show ?thesis
    by (intro exI [of _ r1] exI [of _ r2] exI [of _ r3] conjI)
qed

theorem window_twelve_variants_witness:
  "0 < (2::nat) \<and>
   (let A = [Some 1, Some 1, Some 1, Some 255]; B = [Some 2, Some 2, Some 2, Some 255];
        C = [Some 3, Some 3, Some 3, Some 255]; D = [Some 4, Some 4, Some 4, Some 255]
    in cmat sample4 2 2 (kernel 2 2) 0 0 = [[A, B], [C, D]]
     \<and> extract_patterns sample4 2 2 (kernel 2 2) [(0, 0)] [] =
        Inr [[[A, B], [C, D]], [[C, D], [A, B]], [[B, A], [D, C]],
             [[C, A], [D, B]], [[D, B], [C, A]], [[A, C], [B, D]],
             [[D, C], [B, A]], [[B, A], [D, C]], [[C, D], [A, B]],
             [[B, D], [A, C]], [[A, C], [B, D]], [[D, B], [C, A]]])"
proof -
  have pos: "0 < (2::nat)" by simp
  define A B C D :: pixel where "A = [Some 1, Some 1, Some 1, Some 255]"
    and "B = [Some 2, Some 2, Some 2, Some 255]"
    and "C = [Some 3, Some 3, Some 3, Some 255]"
    and "D = [Some 4, Some 4, Some 4, Some 255]"
  have c: "cmat sample4 2 2 (kernel 2 2) 0 0 = [[A, B], [C, D]]"
    unfolding A_def B_def C_def D_def by code_simp
  have t1: "rotate90 [[A, B], [C, D]] = Inr [[C, A], [D, B]]"
    and t2: "rotate90 [[C, A], [D, B]] = Inr [[D, C], [B, A]]"
    and t3: "rotate90 [[D, C], [B, A]] = Inr [[B, D], [A, C]]"
    by (simp_all add: rotate90_def upt_rec)
  from window_twelve_variants [OF pos refl, of sample4 2 2 0 0] obtain r1 r2 r3 where
    rot: "rotate90 (cmat sample4 2 2 (kernel 2 2) 0 0) = Inr r1" "rotate90 r1 = Inr r2"
      "rotate90 r2 = Inr r3"
    and one: "extract_patterns sample4 2 2 (kernel 2 2) [(0, 0)] [] =
        Inr ([] @ [cmat sample4 2 2 (kernel 2 2) 0 0, rev (cmat sample4 2 2 (kernel 2 2) 0 0),
                   map rev (cmat sample4 2 2 (kernel 2 2) 0 0),
                   r1, rev r1, map rev r1, r2, rev r2, map rev r2, r3, rev r3, map rev r3])"
    by blast
  from rot(1) have r1: "r1 = [[C, A], [D, B]]"
    by (simp add: c t1)
  from rot(2) have r2: "r2 = [[D, C], [B, A]]"
    by (simp add: r1 t2)
  from rot(3) have r3: "r3 = [[B, D], [A, C]]"
    by (simp add: r2 t3)
  have "extract_patterns sample4 2 2 (kernel 2 2) [(0, 0)] [] =
        Inr [[[A, B], [C, D]], [[C, D], [A, B]], [[B, A], [D, C]],
             [[C, A], [D, B]], [[D, B], [C, A]], [[A, C], [B, D]],
             [[D, C], [B, A]], [[B, A], [D, C]], [[C, D], [A, B]],
             [[B, D], [A, C]], [[A, C], [B, D]], [[D, B], [C, A]]]"
    unfolding one by (simp add: c r1 r2 r3)
  with c pos show ?thesis
    unfolding A_def B_def C_def D_def Let_def by (intro conjI)
qed


section \<open>Neighbours: wrap in x, bounds in y\<close>

text \<open>
  C7. On a grid of positive width the neighbour of a cell in direction \<open>(dx, dy)\<close> has
  its column taken modulo the width and its row only tested against the bounds: a
  cell in column 0 has its left neighbour in column \<open>W - 1\<close> of the same row, a cell
  in row 0 has no neighbour above, a cell in row \<open>H - 1\<close> has none below, and a
  direction without a neighbour leaves the wave, the entropy map, the stack and the
  count of random calls as they are.
\<close>

theorem neighbor_wrap_and_skip:
  assumes "0 < W"
  shows "neighbor W H cur (dx, dy) =
           (if 0 \<le> int (cur div W) + dy \<and> int (cur div W) + dy < int H
            then Some (nat ((int (cur mod W) + dx + int W) mod int W + (int (cur div W) + dy) * int W))
            else None)
       \<and> (cur mod W = 0 \<and> cur div W < H \<longrightarrow> neighbor W H cur (-1, 0) = Some (cur + W - 1))
       \<and> (cur div W = 0 \<longrightarrow> neighbor W H cur (0, -1) = None)
       \<and> (cur div W + 1 = H \<longrightarrow> neighbor W H cur (0, 1) = None)
       \<and> (\<forall>d. neighbor W H cur d = None \<longrightarrow> visit W H adj rnd cur d s = Continue s)"
proof (intro conjI impI allI)
  show "neighbor W H cur (dx, dy) =
           (if 0 \<le> int (cur div W) + dy \<and> int (cur div W) + dy < int H
            then Some (nat ((int (cur mod W) + dx + int W) mod int W + (int (cur div W) + dy) * int W))
            else None)"
    using assms by (simp add: neighbor_def Let_def)
next
  assume that: "cur mod W = 0 \<and> cur div W < H"
  have cur: "cur = cur div W * W"
    using that by (metis add.right_neutral div_mult_mod_eq)
  have x: "(int (cur mod W) + fst (-1 :: int, 0 :: int) + int W) mod int W = int W - 1"
    using assms that by (simp add: zmod_minus1)
  have "nat (int W - 1 + int (cur div W) * int W) = cur div W * W + W - 1"
    using assms by (simp add: nat_add_distrib nat_diff_distrib' nat_mult_distrib algebra_simps)
  with cur have "nat (int W - 1 + int (cur div W) * int W) = cur + W - 1"
    by simp
  with x show "neighbor W H cur (-1, 0) = Some (cur + W - 1)"
    using assms that by (simp add: neighbor_def Let_def)
next
  assume "cur div W = 0"
  then show "neighbor W H cur (0, -1) = None"
    using assms by (simp add: neighbor_def Let_def)
next
  assume "cur div W + 1 = H"
  then show "neighbor W H cur (0, 1) = None"
    using assms by (auto simp add: neighbor_def Let_def)
next
  fix d
  assume "neighbor W H cur d = None"
  then show "visit W H adj rnd cur d s = Continue s"
    by (simp add: visit_def)
qed

theorem neighbor_wrap_and_skip_witness:
  "neighbor 3 1 0 (-1, 0) = Some 2
   \<and> neighbor 3 1 0 (0, -1) = None
   \<and> neighbor 3 1 0 (0, 1) = None
   \<and> visit 3 1 [[[0], [0], [0], [0]]] (\<lambda>_. 0) 0 (0, -1)
        \<lparr>drawWave = [(0, [Some 0])], drawEntropy = [(1, 1)], stack = [], calls = 1\<rparr>
      = Continue \<lparr>drawWave = [(0, [Some 0])], drawEntropy = [(1, 1)], stack = [], calls = 1\<rparr>"
proof -
  have pos: "0 < (3::nat)" by simp
  from neighbor_wrap_and_skip [OF pos, of 1 0 0 0 "[[[0], [0], [0], [0]]]" "\<lambda>_. 0"
      "\<lparr>drawWave = [(0, [Some 0])], drawEntropy = [(1, 1)], stack = [], calls = 1\<rparr>"]
  show ?thesis by simp
qed

section \<open>Termination of a step\<close>

lemma isSubSetOf_iff: "isSubSetOf a b \<longleftrightarrow> set a \<subseteq> set b"
  by (auto simp: isSubSetOf_def list_all_iff)

lemma set_intersect_fold:
  "set (fold (\<lambda>elem intersection. if elem \<in> set b then set_add elem intersection else intersection) a acc)
     = set acc \<union> (set a \<inter> set b)"
  by (induction a arbitrary: acc) (auto simp: set_set_add)

lemma set_intersectSets: "set (intersectSets a b) = set a \<inter> set b"
  by (simp add: intersectSets_def set_intersect_fold)

lemma domain_of_update: "domain_of (AList.update n v w) c = (if c = n then v else domain_of w c)"
  by (simp add: domain_of_def update_conv')

lemma keys_update_present: "has m k \<Longrightarrow> fst ` set (AList.update k v m) = fst ` set m"
  by (auto simp: has_def dom_update)

lemma weight_shrink:
  assumes n: "has (drawEntropy s) n"
    and sub: "\<not> isSubSetOf (domain_of (drawWave s) n) p"
  shows "weight (s\<lparr> drawWave := AList.update n (intersectSets p (domain_of (drawWave s) n)) (drawWave s),
                    drawEntropy := AList.update n e (drawEntropy s),
                    stack := st, calls := k \<rparr>) < weight s"
proof -
  let ?K = "fst ` set (drawEntropy s)"
  let ?a = "domain_of (drawWave s) n"
  let ?f = "\<lambda>c. card (set (domain_of (drawWave s) c))"
  let ?g = "\<lambda>c. card (set (if c = n then intersectSets p ?a else domain_of (drawWave s) c))"
  have "set (intersectSets p ?a) \<subset> set ?a"
    using sub by (auto simp: set_intersectSets isSubSetOf_iff)
  then have less: "?g n < ?f n"
    by (simp add: psubset_card_mono)
  have le: "\<forall>c \<in> ?K. ?g c \<le> ?f c"
    using less by auto
  have nK: "n \<in> ?K"
    using n by (simp add: has_def)
  have "sum ?g ?K < sum ?f ?K"
    by (rule sum_strict_mono_ex1) (use le less nK in auto)
  then show ?thesis
    by (simp add: weight_def keys_update_present [OF n] domain_of_update)
qed

text \<open>What a visit that continues can have done: nothing, or one update and one push.\<close>

lemma visit_Continue:
  assumes "visit W H adj rnd cur d s = Continue s'"
  shows "s' = s \<or>
    (\<exists>n. neighbor W H cur d = Some n \<and> has (drawEntropy s) n
       \<and> \<not> isSubSetOf (domain_of (drawWave s) n) (possible adj (map_of (drawWave s) cur) d)
       \<and> intersectSets (possible adj (map_of (drawWave s) cur) d) (domain_of (drawWave s) n) \<noteq> []
       \<and> s' = s\<lparr> drawWave := AList.update n
                     (intersectSets (possible adj (map_of (drawWave s) cur) d) (domain_of (drawWave s) n))
                     (drawWave s),
                  drawEntropy := AList.update n
                     (real (length (intersectSets (possible adj (map_of (drawWave s) cur) d)
                                      (domain_of (drawWave s) n)))
                        - rnd (calls s) * (1 / 10)) (drawEntropy s),
                  stack := n # stack s, calls := Suc (calls s) \<rparr>)"
proof (cases "neighbor W H cur d")
  case None
  with assms show ?thesis by (simp add: visit_def)
next
  case (Some n)
  with assms show ?thesis
    by (auto simp: visit_def domain_of_def Let_def split: if_splits)
qed

lemma visit_weight:
  assumes "visit W H adj rnd cur d s = Continue s'"
  shows "s' = s \<or> weight s' < weight s"
  using visit_Continue [OF assms] weight_shrink by auto

lemma visit_all_weight:
  "visit_all W H adj rnd cur ds s = Continue s' \<Longrightarrow> s' = s \<or> weight s' < weight s"
proof (induction ds arbitrary: s)
  case Nil
  then show ?case by simp
next
  case (Cons d ds)
  then show ?case
    by (fastforce split: flow.splits dest: visit_weight)
qed

lemma weight_stack: "weight (s\<lparr>stack := st\<rparr>) = weight s"
  by (simp add: weight_def)

text \<open>Induction along the loop: a property holds of every loop state if it holds of a
  state whenever it holds of the state that the next round, if any, continues with.\<close>

lemma propagate_induct:
  assumes step: "\<And>s. (\<And>c rest s'. stack s = c # rest \<Longrightarrow>
        visit_all W H adj rnd c directions (s\<lparr>stack := rest\<rparr>) = Continue s' \<Longrightarrow> P s') \<Longrightarrow> P s"
  shows "P s"
proof -
  have "wf (measures [weight, \<lambda>s. length (stack s)])"
    by simp
  then show ?thesis
  proof (induct s rule: wf_induct_rule)
    case (less s)
    show ?case
    proof (rule step)
      fix c rest s'
      assume st: "stack s = c # rest"
        and v: "visit_all W H adj rnd c directions (s\<lparr>stack := rest\<rparr>) = Continue s'"
      from visit_all_weight [OF v]
      have "(s', s) \<in> measures [weight, \<lambda>s. length (stack s)]"
        using st by (auto simp: weight_stack)
      then show "P s'" by (rule less)
    qed
  qed
qed

lemma propagate_total: "\<exists>f. propagate W H adj rnd s = Some f"
proof (induction s rule: propagate_induct [where W = W and H = H and adj = adj and rnd = rnd])
  case (1 s)
  show ?case
  proof (cases "stack s")
    case Nil
    then show ?thesis by (subst propagate.simps) simp
  next
    case (Cons c rest)
    show ?thesis
    proof (cases "visit_all W H adj rnd c directions (s\<lparr>stack := rest\<rparr>)")
      case (Contradiction s')
      with Cons show ?thesis by (subst propagate.simps) simp
    next
      case (Continue s')
      from 1 [OF Cons this] obtain f where "propagate W H adj rnd s' = Some f" ..
      with Cons Continue show ?thesis by (subst propagate.simps) simp
    qed
  qed
qed

lemma propagate_not_None: "propagate W H adj rnd s \<noteq> None"
  using propagate_total [of W H adj rnd s] by auto

lemma visit_push:
  assumes "visit W H adj rnd cur d s = Continue s'" and "stack s' \<noteq> stack s"
  shows "\<exists>n. stack s' = n # stack s \<and> has (drawEntropy s) n \<and> domain_of (drawWave s') n \<noteq> []
           \<and> set (domain_of (drawWave s') n) \<subset> set (domain_of (drawWave s) n)"
proof -
  from visit_Continue [OF assms(1)] assms(2) obtain n where
    n: "has (drawEntropy s) n"
    and sub: "\<not> isSubSetOf (domain_of (drawWave s) n) (possible adj (map_of (drawWave s) cur) d)"
    and ne: "intersectSets (possible adj (map_of (drawWave s) cur) d) (domain_of (drawWave s) n) \<noteq> []"
    and s': "stack s' = n # stack s"
      "drawWave s' = AList.update n
          (intersectSets (possible adj (map_of (drawWave s) cur) d) (domain_of (drawWave s) n)) (drawWave s)"
    by auto
  have "set (intersectSets (possible adj (map_of (drawWave s) cur) d) (domain_of (drawWave s) n))
          \<subset> set (domain_of (drawWave s) n)"
    using sub by (auto simp: set_intersectSets isSubSetOf_iff)
  with s' ne n show ?thesis
    by (simp add: domain_of_update)
qed

text \<open>
  C9. Every call of \<open>draw\<close> returns, for every state, grid and random source: the stack
  loop ends. A visit pushes a cell only when that cell is in the entropy map and its
  domain has just been replaced by a non-empty proper subset of itself, so every push
  lowers the total size of the domains of the uncollapsed cells.
\<close>

theorem draw_terminates:
  "(\<exists>out st'. draw W H st rnd = Some (out, st')) \<and>
   (\<forall>adj cur d s s'. visit W H adj rnd cur d s = Continue s' \<longrightarrow> stack s' \<noteq> stack s \<longrightarrow>
      (\<exists>n. stack s' = n # stack s \<and> has (drawEntropy s) n \<and> domain_of (drawWave s') n \<noteq> []
           \<and> set (domain_of (drawWave s') n) \<subset> set (domain_of (drawWave s) n)))"
proof
  show "\<exists>out st'. draw W H st rnd = Some (out, st')"
    unfolding draw_def
    by (auto simp: Let_def propagate_not_None split: option.splits flow.splits)
next
  show "\<forall>adj cur d s s'. visit W H adj rnd cur d s = Continue s' \<longrightarrow> stack s' \<noteq> stack s \<longrightarrow>
      (\<exists>n. stack s' = n # stack s \<and> has (drawEntropy s) n \<and> domain_of (drawWave s') n \<noteq> []
           \<and> set (domain_of (drawWave s') n) \<subset> set (domain_of (drawWave s) n))"
    using visit_push by blast
qed

theorem draw_terminates_witness:
  "(\<exists>out st'. draw 2 1
        \<lparr>wave = [(0, [Some 0, Some 1]), (1, [Some 0, Some 1])],
         adjacencies = [[[0], [0], [], []], [[], [], [], []]],
         entropy = [(0, 2), (1, 1)], patterns = [], frequencies = [1, 1]\<rparr> (\<lambda>_. 0) = Some (out, st'))
   \<and> (\<exists>n. stack \<lparr>drawWave = [(0, [Some 0]), (1, [Some 0])], drawEntropy = [(0, 1)], stack = [0], calls = 2\<rparr>
            = n # stack \<lparr>drawWave = [(0, [Some 0, Some 1]), (1, [Some 0])], drawEntropy = [(0, 2)], stack = [], calls = 1\<rparr>
        \<and> has (drawEntropy \<lparr>drawWave = [(0, [Some 0, Some 1]), (1, [Some 0])], drawEntropy = [(0, 2)], stack = [], calls = 1\<rparr>) n
        \<and> domain_of (drawWave \<lparr>drawWave = [(0, [Some 0]), (1, [Some 0])], drawEntropy = [(0, 1)], stack = [0], calls = 2\<rparr>) n \<noteq> []
        \<and> set (domain_of (drawWave \<lparr>drawWave = [(0, [Some 0]), (1, [Some 0])], drawEntropy = [(0, 1)], stack = [0], calls = 2\<rparr>) n)
            \<subset> set (domain_of (drawWave \<lparr>drawWave = [(0, [Some 0, Some 1]), (1, [Some 0])], drawEntropy = [(0, 2)], stack = [], calls = 1\<rparr>) n))"
proof -
  have v: "visit 2 1 [[[0], [0], [], []], [[], [], [], []]] (\<lambda>_. 0) 1 (-1, 0)
      \<lparr>drawWave = [(0, [Some 0, Some 1]), (1, [Some 0])], drawEntropy = [(0, 2)], stack = [], calls = 1\<rparr>
    = Continue \<lparr>drawWave = [(0, [Some 0]), (1, [Some 0])], drawEntropy = [(0, 1)], stack = [0], calls = 2\<rparr>"
    by (simp add: visit_def neighbor_def has_def possible_def directionMapping_def isSubSetOf_def
         intersectSets_def set_add_def Let_def numeral_2_eq_2)
  have ne: "stack \<lparr>drawWave = [(0, [Some 0]), (1, [Some 0])], drawEntropy = [(0, 1)], stack = [0], calls = 2\<rparr>
      \<noteq> stack \<lparr>drawWave = [(0, [Some 0, Some 1]), (1, [Some 0])], drawEntropy = [(0, 2)], stack = [], calls = 1\<rparr>"
    by simp
  show ?thesis
    using draw_terminates [THEN conjunct1] draw_terminates [THEN conjunct2, rule_format, OF v ne]
    by (rule conjI)
qed

section \<open>The two concrete runs, evaluated\<close>

lemma sample3_setup: "setup_engine 2 1 3 (1 / 2) sample3 3 1 = Inr state3"
  by code_simp

lemma sample3_draw:
  "draw 2 1 state3 (\<lambda>_. 0) =
     Some (Undefined, state3\<lparr>wave := [(0, [Some 1]), (1, [Some 0])], entropy := [(0, 1)]\<rparr>)"
  by code_simp


section \<open>Contradiction as an outcome\<close>

lemma visit_Contradiction_iff:
  "visit W H adj rnd cur d s = Contradiction s' \<longleftrightarrow>
     s' = s \<and> (\<exists>n. neighbor W H cur d = Some n \<and> has (drawEntropy s) n
        \<and> \<not> isSubSetOf (domain_of (drawWave s) n) (possible adj (map_of (drawWave s) cur) d)
        \<and> intersectSets (possible adj (map_of (drawWave s) cur) d) (domain_of (drawWave s) n) = [])"
  by (cases "neighbor W H cur d") (auto simp: visit_def domain_of_def Let_def)

text \<open>
  C1. Whenever a call of \<open>draw\<close> returns, it returns \<open>undefined\<close> exactly when a cell was
  selected, a pattern was picked for it and the propagation from that cell stopped
  at a contradiction; \<open>undefined\<close> is neither \<open>null\<close>, which is what \<open>draw\<close> returns on an
  empty entropy map, nor a result record. The loop stops at a contradiction exactly
  in a visit whose neighbour is uncollapsed, has a domain that is not included in
  the possible patterns, and has an empty intersection with them.
\<close>

theorem contradiction_outcome:
  assumes "draw W H st rnd = Some (out, st')"
  shows "(out = Undefined \<longleftrightarrow>
           (\<exists>c p s. entropy st \<noteq> [] \<and> findMinEntropyKey (entropy st) = Some c
              \<and> selectRandomPattern (wave st) (Some c) (frequencies st) (rnd 0) = Some p
              \<and> propagate W H (adjacencies st) rnd
                   \<lparr>drawWave = AList.update c [p] (wave st), drawEntropy = AList.delete c (entropy st),
                    stack = [c], calls = 1\<rparr> = Some (Contradiction s)))
       \<and> (out = Undefined \<longrightarrow> out \<noteq> Null \<and> (\<forall>p c. out \<noteq> Result p c))
       \<and> (entropy st = [] \<longrightarrow> out = Null)
       \<and> (\<forall>adj cur d s s'. visit W H adj rnd cur d s = Contradiction s' \<longleftrightarrow>
             s' = s \<and> (\<exists>n. neighbor W H cur d = Some n \<and> has (drawEntropy s) n
               \<and> \<not> isSubSetOf (domain_of (drawWave s) n) (possible adj (map_of (drawWave s) cur) d)
               \<and> intersectSets (possible adj (map_of (drawWave s) cur) d) (domain_of (drawWave s) n) = []))"
proof (intro conjI)
  show "out = Undefined \<longleftrightarrow>
           (\<exists>c p s. entropy st \<noteq> [] \<and> findMinEntropyKey (entropy st) = Some c
              \<and> selectRandomPattern (wave st) (Some c) (frequencies st) (rnd 0) = Some p
              \<and> propagate W H (adjacencies st) rnd
                   \<lparr>drawWave = AList.update c [p] (wave st), drawEntropy = AList.delete c (entropy st),
                    stack = [c], calls = 1\<rparr> = Some (Contradiction s))"
    using assms unfolding draw_def
    by (auto simp: Let_def split: option.splits flow.splits if_splits)
next
  show "out = Undefined \<longrightarrow> out \<noteq> Null \<and> (\<forall>p c. out \<noteq> Result p c)"
    by simp
next
  show "entropy st = [] \<longrightarrow> out = Null"
    using assms by (auto simp: draw_def)
next
  show "\<forall>adj cur d s s'. visit W H adj rnd cur d s = Contradiction s' \<longleftrightarrow>
             s' = s \<and> (\<exists>n. neighbor W H cur d = Some n \<and> has (drawEntropy s) n
               \<and> \<not> isSubSetOf (domain_of (drawWave s) n) (possible adj (map_of (drawWave s) cur) d)
               \<and> intersectSets (possible adj (map_of (drawWave s) cur) d) (domain_of (drawWave s) n) = [])"
    by (simp add: visit_Contradiction_iff)
qed

theorem contradiction_outcome_witness:
  "draw 2 1 state3 (\<lambda>_. 0) =
     Some (Undefined, state3\<lparr>wave := [(0, [Some 1]), (1, [Some 0])], entropy := [(0, 1)]\<rparr>)
   \<and> (\<exists>c p s. entropy state3 \<noteq> []
        \<and> findMinEntropyKey (entropy state3) = Some c
        \<and> selectRandomPattern (wave state3) (Some c) (frequencies state3) 0 = Some p
        \<and> propagate 2 1 (adjacencies state3) (\<lambda>_. 0)
             \<lparr>drawWave = AList.update c [p] (wave state3),
              drawEntropy = AList.delete c (entropy state3),
              stack = [c], calls = 1\<rparr> = Some (Contradiction s))"
  using contradiction_outcome [OF sample3_draw, THEN conjunct1] sample3_draw by simp

section \<open>Selection and the cell with index 0\<close>

lemma draw_min_cell_zero:
  "findMinEntropyKey (entropy st) = Some 0 \<Longrightarrow> draw W H st rnd = Some (Null, st)"
  by (simp add: draw_def selectRandomPattern_def)

text \<open>
  C2, at a state that \<open>setup\<close> produces. The entropy map holds both cells, the cell
  with the least entropy is cell 0, and \<open>draw\<close> returns \<open>null\<close> with the state as it was:
  no cell is collapsed although two cells are uncollapsed.
\<close>

theorem cell_zero_never_collapsed:
  "setup_engine 2 1 1 0 [7, 7, 7, 7] 1 1 = Inr state1
   \<and> entropy state1 \<noteq> []
   \<and> findMinEntropyKey (entropy state1) = Some 0
   \<and> draw 2 1 state1 (\<lambda>_. 0) = Some (Null, state1)"
  by code_simp

section \<open>No rollback on contradiction\<close>

text \<open>
  C3. \<open>setup\<close> on the sample \<open>sample3\<close> installs \<open>state3\<close>, where cell 0 has all six
  patterns as its domain and entropy 6. The first \<open>draw\<close>, with every random number 0,
  collapses cell 1 to pattern 0, narrows cell 0 to pattern 1 when it visits it as the
  left neighbour, then finds the contradiction when it visits it as the right
  neighbour, and returns \<open>undefined\<close>: the state it leaves has cell 1 collapsed and
  removed from the entropy map, and cell 0 with the domain and the entropy written
  by the first visit.
\<close>

theorem contradiction_keeps_partial_mutation:
  "setup_engine 2 1 3 (1 / 2) sample3 3 1 = Inr state3
   \<and> domain_of (wave state3) 0 = [Some 0, Some 1, Some 2, Some 3, Some 4, Some 5]
   \<and> map_of (entropy state3) 0 = Some 6
   \<and> draw 2 1 state3 (\<lambda>_. 0) =
       Some (Undefined, state3\<lparr>wave := [(0, [Some 1]), (1, [Some 0])], entropy := [(0, 1)]\<rparr>)
   \<and> domain_of (wave (state3\<lparr>wave := [(0, [Some 1]), (1, [Some 0])], entropy := [(0, 1)]\<rparr>)) 0
        \<noteq> domain_of (wave state3) 0
   \<and> map_of (entropy (state3\<lparr>wave := [(0, [Some 1]), (1, [Some 0])], entropy := [(0, 1)]\<rparr>)) 0
        \<noteq> map_of (entropy state3) 0"
  by code_simp

section \<open>Domains are never empty\<close>

lemma set_update_cases: "x \<in> set (AList.update k v al) \<Longrightarrow> x = (k, v) \<or> x \<in> set al"
  by (induction al) (auto split: if_splits)

lemma nonempty_update: "nonempty_domains w \<Longrightarrow> v \<noteq> [] \<Longrightarrow> nonempty_domains (AList.update k v w)"
  unfolding nonempty_domains_def by (auto dest: set_update_cases)

lemma visit_Contradiction: "visit W H adj rnd cur d s = Contradiction s' \<Longrightarrow> s' = s"
  by (auto simp: visit_def Let_def split: option.splits if_splits)

lemma visit_nonempty:
  assumes "visit W H adj rnd cur d s = f" and "nonempty_domains (drawWave s)"
  shows "nonempty_domains (drawWave (flow_state f))"
proof (cases f)
  case (Contradiction s')
  with assms visit_Contradiction show ?thesis by fastforce
next
  case (Continue s')
  with assms visit_Continue [of W H adj rnd cur d s s'] show ?thesis
    by (auto simp: nonempty_update)
qed

lemma visit_all_nonempty:
  "visit_all W H adj rnd cur ds s = f \<Longrightarrow> nonempty_domains (drawWave s)
     \<Longrightarrow> nonempty_domains (drawWave (flow_state f))"
proof (induction ds arbitrary: s)
  case Nil
  then show ?case by auto
next
  case (Cons d ds)
  show ?case
  proof (cases "visit W H adj rnd cur d s")
    case (Contradiction s')
    with Cons.prems visit_nonempty [OF Contradiction] show ?thesis by auto
  next
    case (Continue s')
    with Cons.prems visit_nonempty [OF Continue] Cons.IH [of s'] show ?thesis by auto
  qed
qed

lemma propagate_nonempty:
  "propagate W H adj rnd s = Some f \<Longrightarrow> nonempty_domains (drawWave s)
     \<Longrightarrow> nonempty_domains (drawWave (flow_state f))"
proof (induction s rule: propagate_induct [where W = W and H = H and adj = adj and rnd = rnd])
  case (1 s)
  show ?case
  proof (cases "stack s")
    case Nil
    with 1 show ?thesis by (auto simp: propagate.simps)
  next
    case (Cons c rest)
    have ne: "nonempty_domains (drawWave (s\<lparr>stack := rest\<rparr>))"
      using 1(3) by simp
    show ?thesis
    proof (cases "visit_all W H adj rnd c directions (s\<lparr>stack := rest\<rparr>)")
      case (Contradiction s')
      with Cons 1(2) have "f = Contradiction s'" by (simp add: propagate.simps)
      with visit_all_nonempty [OF Contradiction ne] show ?thesis by simp
    next
      case (Continue s')
      with Cons 1(2) have "propagate W H adj rnd s' = Some f" by (simp add: propagate.simps)
      with 1(1) [OF Cons Continue] visit_all_nonempty [OF Continue ne] show ?thesis by simp
    qed
  qed
qed

lemma draw_nonempty:
  assumes "draw W H st rnd = Some (out, st')" and "nonempty_domains (wave st)"
  shows "nonempty_domains (wave st')"
proof -
  have upd: "nonempty_domains (AList.update c [p] (wave st))" for c p
    using assms(2) by (simp add: nonempty_update)
  have "nonempty_domains (drawWave (flow_state f))"
    if "propagate W H (adjacencies st) rnd
          \<lparr>drawWave = AList.update c [p] (wave st), drawEntropy = AList.delete c (entropy st),
           stack = [c], calls = 1\<rparr> = Some f" for c p f
    using propagate_nonempty [OF that] upd by simp
  with assms show ?thesis
    unfolding draw_def
    by (fastforce simp: Let_def split: option.splits flow.splits if_splits)
qed

lemma draws_nonempty:
  "draws W H st rnds = Some (outs, st') \<Longrightarrow> nonempty_domains (wave st) \<Longrightarrow> nonempty_domains (wave st')"
proof (induction rnds arbitrary: st outs)
  case Nil
  then show ?case by simp
next
  case (Cons rnd rnds)
  then show ?case
    by (auto split: option.splits prod.splits dest: draw_nonempty)
qed

lemma setup_wave:
  assumes "setup_engine W H N r img w h = Inr st"
  shows "wave st = map (\<lambda>i. (i, map Some [0..<length (patterns st)])) [0..<W * H]"
  using assms by (auto simp: setup_engine_def Let_def split: sum.splits)

text \<open>
  C10. After a \<open>setup\<close> that found at least one pattern, and after any number of calls
  of \<open>draw\<close> from there, whatever they return (\<open>null\<close>, \<open>undefined\<close> for a contradiction,
  or a result), every domain stored in the wave is non-empty.
\<close>

theorem domains_never_empty:
  assumes "setup_engine W H N r img w h = Inr st0" and "patterns st0 \<noteq> []"
    and "draws W H st0 rnds = Some (outs, st)"
  shows "nonempty_domains (wave st0) \<and> nonempty_domains (wave st)"
proof -
  have "nonempty_domains (wave st0)"
    using assms(2) by (auto simp: setup_wave [OF assms(1)] nonempty_domains_def)
  with draws_nonempty [OF assms(3)] show ?thesis by simp
qed


theorem domains_never_empty_witness:
  "setup_engine 2 1 3 (1 / 2) sample3 3 1 = Inr state3
   \<and> patterns state3 \<noteq> []
   \<and> draws 2 1 state3 [\<lambda>_. 0] =
        Some ([Undefined], state3\<lparr>wave := [(0, [Some 1]), (1, [Some 0])], entropy := [(0, 1)]\<rparr>)
   \<and> nonempty_domains (wave state3)
   \<and> nonempty_domains (wave (state3\<lparr>wave := [(0, [Some 1]), (1, [Some 0])], entropy := [(0, 1)]\<rparr>))"
proof -
  have p: "patterns state3 \<noteq> []"
    by (simp add: state3_def Let_def)
  have d: "draws 2 1 state3 [\<lambda>_. 0] =
        Some ([Undefined], state3\<lparr>wave := [(0, [Some 1]), (1, [Some 0])], entropy := [(0, 1)]\<rparr>)"
    by (simp only: draws.simps sample3_draw option.case prod.case)
  from domains_never_empty [OF sample3_setup p d] sample3_setup p d show ?thesis by simp
qed

section \<open>Symmetry of the adjacency table\<close>

lemma table_ok_adj_add: "table_ok P adj \<Longrightarrow> table_ok P (adj_add i d j adj)"
  by (auto simp: table_ok_def adj_add_def nth_list_update)

lemma adjacent_adj_add:
  assumes "table_ok P adj" and "i < P" and "d < 4"
  shows "adjacent (adj_add i d j adj) i' d' =
           (if i' = i \<and> d' = d then insert j (adjacent adj i' d') else adjacent adj i' d')"
  using assms
  by (auto simp: adjacent_def adj_add_def table_ok_def nth_list_update set_set_add)

lemma adj_step_ok: "table_ok P adj \<Longrightarrow> table_ok P (adj_step ps N i j adj)"
  by (simp add: adj_step_def Let_def table_ok_adj_add)

lemma adjacent_adj_step:
  assumes "table_ok P adj" and "i < P" and "j < P"
  shows "adjacent (adj_step ps N i j adj) i' d =
     adjacent adj i' d \<union>
       (if d = 0 \<and> i' = i \<and> isHorizontallyAdjacent (ps ! i) (ps ! j) N then {j} else {}) \<union>
       (if d = 1 \<and> i' = j \<and> isHorizontallyAdjacent (ps ! i) (ps ! j) N then {i} else {}) \<union>
       (if d = 2 \<and> i' = i \<and> isVerticallyAdjacent (ps ! i) (ps ! j) N then {j} else {}) \<union>
       (if d = 3 \<and> i' = j \<and> isVerticallyAdjacent (ps ! i) (ps ! j) N then {i} else {})"
  using assms
  by (simp add: adj_step_def Let_def adjacent_adj_add [where P = P] table_ok_adj_add)

lemma fold_inner_ok: "table_ok P adj \<Longrightarrow> table_ok P (fold (adj_step ps N i) js adj)"
  by (induction js arbitrary: adj) (simp_all add: adj_step_ok)

lemma adjacent_fold_inner:
  assumes "table_ok P adj" and "i < P" and "\<forall>j \<in> set js. j < P"
  shows "adjacent (fold (adj_step ps N i) js adj) i' d =
     adjacent adj i' d \<union>
       {j. d = 0 \<and> i' = i \<and> j \<in> set js \<and> isHorizontallyAdjacent (ps ! i) (ps ! j) N} \<union>
       {k. d = 1 \<and> k = i \<and> i' \<in> set js \<and> isHorizontallyAdjacent (ps ! i) (ps ! i') N} \<union>
       {j. d = 2 \<and> i' = i \<and> j \<in> set js \<and> isVerticallyAdjacent (ps ! i) (ps ! j) N} \<union>
       {k. d = 3 \<and> k = i \<and> i' \<in> set js \<and> isVerticallyAdjacent (ps ! i) (ps ! i') N}"
  using assms
proof (induction js arbitrary: adj)
  case Nil
  then show ?case by simp
next
  case (Cons j js)
  have ok: "table_ok P (adj_step ps N i j adj)"
    using Cons.prems(1) by (rule adj_step_ok)
  have jP: "j < P" and rest: "\<forall>j \<in> set js. j < P"
    using Cons.prems(3) by simp_all
  show ?case
    by (simp only: fold_simps Cons.IH [OF ok Cons.prems(2) rest]
          adjacent_adj_step [OF Cons.prems(1) Cons.prems(2) jP])
       (auto split: if_splits)
qed

lemma fold_outer_ok:
  "table_ok P adj \<Longrightarrow> table_ok P (fold (\<lambda>i. fold (adj_step ps N i) js) is adj)"
  by (induction "is" arbitrary: adj) (simp_all add: fold_inner_ok)

lemma adjacent_fold_outer:
  assumes "table_ok P adj" and "\<forall>i \<in> set is. i < P" and "\<forall>j \<in> set js. j < P"
  shows "adjacent (fold (\<lambda>i. fold (adj_step ps N i) js) is adj) i' d =
     adjacent adj i' d \<union>
       {j. d = 0 \<and> i' \<in> set is \<and> j \<in> set js \<and> isHorizontallyAdjacent (ps ! i') (ps ! j) N} \<union>
       {k. d = 1 \<and> k \<in> set is \<and> i' \<in> set js \<and> isHorizontallyAdjacent (ps ! k) (ps ! i') N} \<union>
       {j. d = 2 \<and> i' \<in> set is \<and> j \<in> set js \<and> isVerticallyAdjacent (ps ! i') (ps ! j) N} \<union>
       {k. d = 3 \<and> k \<in> set is \<and> i' \<in> set js \<and> isVerticallyAdjacent (ps ! k) (ps ! i') N}"
  using assms
proof (induction "is" arbitrary: adj)
  case Nil
  then show ?case by simp
next
  case (Cons i "is")
  have ok: "table_ok P (fold (adj_step ps N i) js adj)"
    using Cons.prems(1) by (rule fold_inner_ok)
  have iP: "i < P" and rest: "\<forall>i \<in> set is. i < P"
    using Cons.prems(2) by simp_all
  show ?case
    by (simp only: fold_simps Cons.IH [OF ok rest Cons.prems(3)]
          adjacent_fold_inner [OF Cons.prems(1) iP Cons.prems(3)])
       auto
qed

lemma adjacent_initAdjacencies:
  "adjacent (initAdjacencies ps N) i d =
     {j. d = 0 \<and> i < length ps \<and> j < length ps \<and> isHorizontallyAdjacent (ps ! i) (ps ! j) N} \<union>
     {k. d = 1 \<and> k < length ps \<and> i < length ps \<and> isHorizontallyAdjacent (ps ! k) (ps ! i) N} \<union>
     {j. d = 2 \<and> i < length ps \<and> j < length ps \<and> isVerticallyAdjacent (ps ! i) (ps ! j) N} \<union>
     {k. d = 3 \<and> k < length ps \<and> i < length ps \<and> isVerticallyAdjacent (ps ! k) (ps ! i) N}"
proof -
  let ?P = "length ps"
  let ?init = "replicate ?P (map (\<lambda>_. []) directions) :: nat list list list"
  have ok: "table_ok ?P ?init"
    by (simp add: table_ok_def directions_def)
  have empty: "adjacent ?init i d = {}"
    by (auto simp: adjacent_def)
  have r: "\<forall>i \<in> set [0..<?P]. i < ?P"
    by simp
  show ?thesis
    unfolding initAdjacencies_def Let_def
    by (simp only: adjacent_fold_outer [OF ok r r] empty) auto
qed

lemma setup_adjacencies:
  assumes "setup_engine W H N r img w h = Inr st"
  shows "adjacencies st = initAdjacencies (patterns st) N"
  using assms by (auto simp: setup_engine_def Let_def split: sum.splits)

text \<open>
  C4. In the table that \<open>setup\<close> installs, for all pattern ids \<open>i\<close> and \<open>j\<close>: \<open>j\<close> is in the
  Left set (direction 0) of \<open>i\<close> exactly when \<open>i\<close> is in the Right set (direction 1) of
  \<open>j\<close>, and \<open>j\<close> is in the Up set (direction 2) of \<open>i\<close> exactly when \<open>i\<close> is in the Down
  set (direction 3) of \<open>j\<close>.
\<close>

theorem adjacency_symmetry:
  assumes "setup_engine W H N r img w h = Inr st"
  shows "(j \<in> adjacent (adjacencies st) i 0 \<longleftrightarrow> i \<in> adjacent (adjacencies st) j 1)
       \<and> (j \<in> adjacent (adjacencies st) i 2 \<longleftrightarrow> i \<in> adjacent (adjacencies st) j 3)"
  unfolding setup_adjacencies [OF assms] adjacent_initAdjacencies by auto


theorem adjacency_symmetry_witness:
  "setup_engine 2 1 3 (1 / 2) sample3 3 1 = Inr state3
   \<and> 1 \<in> adjacent (adjacencies state3) 0 0
   \<and> 0 \<in> adjacent (adjacencies state3) 1 1
   \<and> (1 \<in> adjacent (adjacencies state3) 0 2 \<longleftrightarrow> 0 \<in> adjacent (adjacencies state3) 1 3)"
proof -
  have m: "1 \<in> adjacent (adjacencies state3) 0 0"
    by (simp add: state3_def adjacent_def Let_def)
  from adjacency_symmetry [OF sample3_setup, of 1 0] m sample3_setup show ?thesis
    by simp
qed

section \<open>Setup does not validate its configuration\<close>

lemma extract_total:
  assumes "0 < N"
  shows "\<exists>out. extract_patterns img w h (kernel N w) ps acc = Inr out"
proof (induction ps arbitrary: acc)
  case Nil
  show ?case by simp
next
  case (Cons p ps)
  obtain x y where p: "p = (x, y)" by (cases p)
  from variants_square [OF square_cmat assms, of img w h x y]
  obtain out where "variants 4 (cmat img w h (kernel N w) x y) acc = Inr out"
    by blast
  with Cons.IH [of out] show ?case
    by (simp add: p)
qed

text \<open>
  C8, as the code has it. \<open>setup\<close> checks neither the pattern dimension against the
  sample nor the grid size: for every pattern dimension of at least 1, every sample
  width and height (also smaller than the pattern dimension) and every grid width
  and height (also zero) it completes and installs a state, whose wave has one entry
  per grid cell.
\<close>

theorem setup_never_rejects:
  assumes "0 < patternDim"
  shows "\<exists>st. setup_engine W H patternDim r img w h = Inr st
            \<and> wave st = map (\<lambda>i. (i, map Some [0..<length (patterns st)])) [0..<W * H]"
proof -
  from extract_total [OF assms] obtain allPatterns where
    "extract_patterns img w h (kernel patternDim w) (positions w h) [] = Inr allPatterns"
    by blast
  then show ?thesis
    by (simp add: setup_engine_def Let_def)
qed

theorem setup_never_rejects_witness:
  "0 < (2::nat) \<and> (\<exists>st. setup_engine 0 0 2 (1 / 2) [7, 7, 7, 7] 1 1 = Inr st
            \<and> wave st = map (\<lambda>i. (i, map Some [0..<length (patterns st)])) [0..<0 * 0])"
proof -
  have pos: "0 < (2::nat)" by simp
  from setup_never_rejects [OF pos, of 0 0 "1 / 2" "[7, 7, 7, 7]" 1 1] show ?thesis
    by simp
qed

text \<open>C8 as stated fails: pattern dimension 2 on a sample of one pixel, for a grid of
  width 0 and height 0, is accepted.\<close>

theorem setup_accepts_oversized_pattern_and_empty_grid:
  "setup_engine 0 0 2 (1 / 2) [7, 7, 7, 7] 1 1 =
     Inr \<lparr> wave = [], adjacencies = [[[0], [0], [0], [0]]], entropy = [(0, 0)],
           patterns = [[[[Some 7, Some 7, Some 7, Some 7], [Some 7, Some 7, Some 7, Some 7]],
                        [[Some 7, Some 7, Some 7, Some 7], [Some 7, Some 7, Some 7, Some 7]]]],
           frequencies = [12] \<rparr>"
  by code_simp

section \<open>The uniform sample with pattern dimension 1\<close>

lemma nth_concat_replicate:
  "k < n \<Longrightarrow> j < length px \<Longrightarrow> concat (replicate n px) ! (k * length px + j) = px ! j"
proof (induction n arbitrary: k)
  case 0
  then show ?case by simp
next
  case (Suc n)
  show ?case
  proof (cases k)
    case 0
    with Suc.prems show ?thesis by (simp add: nth_append)
  next
    case (Suc k')
    with Suc.prems Suc.IH [of k'] show ?thesis
      by (simp add: nth_append add.assoc)
  qed
qed

lemma image_at_uniform:
  assumes "uniform_sample img w h px" and "k < w * h" and "j < 4"
  shows "image_at img (k * 4 + j) = Some (px ! j)"
proof -
  from assms(1) have len: "length px = 4" and img: "img = concat (replicate (w * h) px)"
    by (simp_all add: uniform_sample_def)
  have "k * 4 + j < length img"
    using assms(2,3) by (simp add: img len length_concat sum_list_replicate)
  moreover have "img ! (k * 4 + j) = px ! j"
    using nth_concat_replicate [of k "w * h" j px] assms(2,3) by (simp add: img len)
  ultimately show ?thesis
    by (simp add: image_at_def)
qed

lemma map_Some_4: "length px = 4 \<Longrightarrow> [Some (px ! 0), Some (px ! Suc 0), Some (px ! 2), Some (px ! 3)] = map Some px"
  by (auto simp: list_eq_iff_nth_eq nth_Cons' numeral_eq_Suc less_Suc_eq)

lemma cmat_uniform:
  assumes u: "uniform_sample img w h px" and x: "x < w" and y: "y < h"
  shows "cmat img w h (kernel (Suc 0) w) x y = [[map Some px]]"
proof -
  have k: "y * w + x < w * h"
  proof -
    have "y * w + x < y * w + w" using x by simp
    also have "\<dots> = (Suc y) * w" by simp
    also have "\<dots> \<le> h * w" using y by (intro mult_le_mono1) simp
    finally show ?thesis by (simp add: mult.commute)
  qed
  from u have len: "length px = 4" by (simp add: uniform_sample_def)
  have "image_at img ((y * w + x) * 4 + j) = Some (px ! j)" if "j < 4" for j
    using image_at_uniform [OF u k that] .
  from this [of 0] this [of 1] this [of 2] this [of 3] x y show ?thesis
    by (simp add: cmat_def kernel_def Let_def map_Some_4 [OF len])
qed

lemma variants_single: "variants 4 [[p]] acc = Inr (acc @ replicate 12 [[p]])"
  by (simp add: numeral_eq_Suc rotate90_def)

lemma extract_uniform:
  assumes u: "uniform_sample img w h px" and ps: "\<forall>(x, y) \<in> set ps. x < w \<and> y < h"
  shows "extract_patterns img w h (kernel (Suc 0) w) ps acc = Inr (acc @ replicate (12 * length ps) [[map Some px]])"
  using ps
proof (induction ps arbitrary: acc)
  case Nil
  show ?case by simp
next
  case (Cons p ps)
  obtain x y where p: "p = (x, y)" by (cases p)
  with Cons.prems have xy: "x < w" "y < h" and rest: "\<forall>(x, y) \<in> set ps. x < w \<and> y < h"
    by auto
  show ?case
    by (simp add: p cmat_uniform [OF u xy] variants_single Cons.IH [OF rest] replicate_add)
qed

lemma positions_in_range: "\<forall>(x, y) \<in> set (positions w h). x < w \<and> y < h"
  by (auto simp: positions_def)

lemma length_positions: "length (positions w h) = w * h"
  by (simp add: positions_def length_concat comp_def sum_list_triv mult.commute)

lemma fold_count_same:
  "0 < m \<Longrightarrow> fold count_pattern (replicate n p) ([(p, m)], [p], [(p, 0)]) = ([(p, m + n)], [p], [(p, 0)])"
  by (induction n arbitrary: m) (simp_all add: count_pattern_def)

lemma deduplicate_replicate:
  "0 < n \<Longrightarrow> deduplicate (replicate n p) = ([(p, n)], [p], [(p, 0)])"
proof -
  assume "0 < n"
  then obtain k where n: "n = Suc k" by (cases n) auto
  show ?thesis
    using fold_count_same [of 1 k p] by (simp add: deduplicate_def n count_pattern_def)
qed

lemma initAdjacencies_single: "initAdjacencies [[[p]]] (Suc 0) = [[[0], [0], [0], [0]]]"
  by (simp add: initAdjacencies_def adj_step_def adj_add_def set_add_def directions_def
      isHorizontallyAdjacent_def isVerticallyAdjacent_def filter_index_def Let_def)

lemma setup_uniform:
  assumes u: "uniform_sample img w h px" and w: "0 < w" and h: "0 < h"
  shows "setup_engine W H 1 r img w h =
     Inr \<lparr> wave = map (\<lambda>i. (i, [Some 0])) [0..<W * H],
           adjacencies = [[[0], [0], [0], [0]]],
           entropy = AList.update (nat \<lfloor>r * real (W * H)\<rfloor>) 0 (map (\<lambda>i. (i, 1)) [0..<W * H]),
           patterns = [[[map Some px]]],
           frequencies = [12 * (w * h)] \<rparr>"
proof -
  have pos: "0 < 12 * (w * h)" using w h by simp
  have e: "extract_patterns img w h (kernel (Suc 0) w) (positions w h) [] = Inr (replicate (12 * (w * h)) [[map Some px]])"
    using extract_uniform [OF u positions_in_range, of "[]"] by (simp add: length_positions)
  show ?thesis
    by (simp add: setup_engine_def e deduplicate_replicate [OF pos] fill_freqs_def
          initAdjacencies_single Let_def)
qed


lemma map_of_const: "map_of (map (\<lambda>i. (i, v)) xs) c = (if c \<in> set xs then Some v else None)"
  by (induction xs) auto

lemma map_of_const_upt: "map_of (map (\<lambda>i. (i, v)) [0..<n]) c = (if c < n then Some v else None)"
  by (simp add: map_of_const)

lemma floor_index:
  assumes "0 \<le> r" and "r < 1" and "0 < f"
  shows "0 \<le> \<lfloor>r * real f\<rfloor> \<and> nat \<lfloor>r * real f\<rfloor> < f"
proof -
  have "r * real f < real f"
    using assms by simp
  then have "\<lfloor>r * real f\<rfloor> < int f"
    by (simp add: floor_less_iff)
  moreover have "0 \<le> \<lfloor>r * real f\<rfloor>"
    using assms by simp
  ultimately show ?thesis by linarith
qed

lemma select_single:
  assumes "0 \<le> r" and "r < 1" and "0 < f"
  shows "selectRandomPattern (map (\<lambda>i. (i, [Some 0])) [0..<n]) (Some c) [f] r =
           (if c = 0 \<or> n \<le> c then None else Some (Some 0))"
  using floor_index [OF assms]
  by (simp add: selectRandomPattern_def map_of_const_upt freq_of_def Let_def)

lemma possible_single:
  "d \<in> set directions \<Longrightarrow> possible [[[0], [0], [0], [0]]] (Some [Some 0]) d = [Some 0]"
  by (auto simp: possible_def directions_def directionMapping_def set_add_def)

lemma visit_single:
  assumes w: "drawWave s = map (\<lambda>i. (i, [Some 0])) [0..<n]" and c: "cur < n" and d: "d \<in> set directions"
  shows "visit W H [[[0], [0], [0], [0]]] rnd cur d s = Continue s"
  by (simp add: visit_def w map_of_const_upt c possible_single [OF d] isSubSetOf_def Let_def
        split: option.splits)

lemma visit_all_single:
  assumes w: "drawWave s = map (\<lambda>i. (i, [Some 0])) [0..<n]" and c: "cur < n"
  shows "visit_all W H [[[0], [0], [0], [0]]] rnd cur directions s = Continue s"
proof -
  have "visit_all W H [[[0], [0], [0], [0]]] rnd cur ds s = Continue s" if "set ds \<subseteq> set directions" for ds
    using that by (induction ds) (simp_all add: visit_single [OF w c])
  then show ?thesis by simp
qed

lemma propagate_single:
  assumes w: "drawWave s = map (\<lambda>i. (i, [Some 0])) [0..<n]" and c: "c < n" and st: "stack s = [c]"
  shows "propagate W H [[[0], [0], [0], [0]]] rnd s = Some (Continue (s\<lparr>stack := []\<rparr>))"
proof -
  have v: "visit_all W H [[[0], [0], [0], [0]]] rnd c directions (s\<lparr>stack := []\<rparr>) = Continue (s\<lparr>stack := []\<rparr>)"
    by (rule visit_all_single [where n = n]) (simp_all add: w c)
  show ?thesis
    by (subst propagate.simps, simp add: st v, subst propagate.simps, simp)
qed

lemma update_same: "c < n \<Longrightarrow> AList.update c v (map (\<lambda>i. (i, v)) [0..<n]) = map (\<lambda>i. (i, v)) [0..<n]"
  by (rule update_triv) (simp add: map_of_const_upt)

lemma findMinEntropyKey_fold_in:
  "fst (fold (\<lambda>(key, value) (minKey, minValue).
                 if (case minValue of None \<Rightarrow> True | Some m \<Rightarrow> value < m)
                 then (Some key, Some value) else (minKey, minValue)) e acc) = Some c
   \<Longrightarrow> fst acc = Some c \<or> c \<in> fst ` set e"
  by (induction e arbitrary: acc) (fastforce split: if_splits prod.splits)+

lemma findMinEntropyKey_in: "findMinEntropyKey e = Some c \<Longrightarrow> c \<in> fst ` set e"
  using findMinEntropyKey_fold_in [of e "(None, None)" c] by (simp add: findMinEntropyKey_def)

lemma length_delete_less: "c \<in> fst ` set e \<Longrightarrow> length (AList.delete c e) < length e"
  by (auto simp: AList.delete_eq intro!: length_filter_less)

lemma draw_single:
  assumes inv: "single_pattern_state W H st" and r: "0 \<le> rnd 0" "rnd 0 < 1"
  shows "\<exists>out st'. draw W H st rnd = Some (out, st') \<and> out \<noteq> Undefined \<and> single_pattern_state W H st'
           \<and> (out = Null \<or> length (entropy st') < length (entropy st))"
proof -
  from inv obtain f p where w: "wave st = map (\<lambda>i. (i, [Some 0])) [0..<W * H]"
    and a: "adjacencies st = [[[0], [0], [0], [0]]]"
    and f: "0 < f" "frequencies st = [f]" and p: "patterns st = [p]"
    by (auto simp: single_pattern_state_def)
  show ?thesis
  proof (cases "findMinEntropyKey (entropy st)")
    case None
    with inv show ?thesis by (simp add: draw_def)
  next
    case (Some c)
    show ?thesis
    proof (cases "c = 0 \<or> W * H \<le> c")
      case True
      with Some inv show ?thesis
        by (simp add: draw_def w f select_single [OF r f(1)])
    next
      case False
      then have c: "c < W * H" and sel: "selectRandomPattern (wave st) (Some c) (frequencies st) (rnd 0) = Some (Some 0)"
        by (simp_all add: w f select_single [OF r f(1)])
      have pr: "propagate W H (adjacencies st) rnd
          \<lparr>drawWave = AList.update c [Some 0] (wave st), drawEntropy = AList.delete c (entropy st),
           stack = [c], calls = Suc 0\<rparr>
         = Some (Continue \<lparr>drawWave = wave st, drawEntropy = AList.delete c (entropy st),
           stack = [], calls = Suc 0\<rparr>)"
        unfolding a
        by (subst propagate_single [where n = "W * H" and c = c]) (simp_all add: w update_same c)
      have ne: "entropy st \<noteq> []"
        using findMinEntropyKey_in [OF Some] by auto
      have d: "draw W H st rnd = Some (Result p c, st\<lparr>wave := wave st, entropy := AList.delete c (entropy st)\<rparr>)"
        by (simp add: draw_def ne Some sel pr p Let_def)
      have "length (AList.delete c (entropy st)) < length (entropy st)"
        using findMinEntropyKey_in [OF Some] by (rule length_delete_less)
      with d inv show ?thesis
        by (simp add: single_pattern_state_def)
    qed
  qed
qed

lemma draws_single:
  assumes "single_pattern_state W H st" and "\<forall>rnd \<in> set rnds. 0 \<le> rnd 0 \<and> rnd 0 < 1"
  shows "\<exists>outs st'. draws W H st rnds = Some (outs, st') \<and> Undefined \<notin> set outs
           \<and> single_pattern_state W H st'
           \<and> (length (entropy st) < length rnds \<longrightarrow> Null \<in> set outs)"
  using assms
proof (induction rnds arbitrary: st)
  case Nil
  then show ?case by simp
next
  case (Cons rnd rnds)
  from Cons.prems(2) have r: "0 \<le> rnd 0" "rnd 0 < 1" and rest: "\<forall>rnd \<in> set rnds. 0 \<le> rnd 0 \<and> rnd 0 < 1"
    by simp_all
  from draw_single [where rnd = rnd, OF Cons.prems(1) r] obtain out st1 where
    d: "draw W H st rnd = Some (out, st1)" and o: "out \<noteq> Undefined"
    and i: "single_pattern_state W H st1"
    and l: "out = Null \<or> length (entropy st1) < length (entropy st)"
    by blast
  from Cons.IH [OF i rest] obtain outs st' where
    ds: "draws W H st1 rnds = Some (outs, st')" and u: "Undefined \<notin> set outs"
    and i': "single_pattern_state W H st'"
    and n: "length (entropy st1) < length rnds \<longrightarrow> Null \<in> set outs"
    by blast
  have "length (entropy st) < length (rnd # rnds) \<longrightarrow> Null \<in> set (out # outs)"
    using l n by auto
  with d ds o u i' show ?case
    by simp
qed

lemma length_update_le: "length (AList.update k v al) \<le> length al + 1"
  by (induction al) auto

text \<open>
  C5, as the code has it. For a sample of positive width and height whose pixels are
  all equal, and pattern dimension 1, \<open>setup\<close> installs exactly one pattern, with
  frequency \<open>12 * (w * h)\<close> (every window is counted once for each of its twelve
  symmetry variants), compatible with itself in the four directions. From there, for
  any grid and any calls of \<open>draw\<close> whose random numbers for the weighted pick lie in
  \<open>[0, 1)\<close>: every call returns, none returns \<open>undefined\<close> (no contradiction), every
  cell of the grid keeps the domain \<open>{0}\<close>, and among any \<open>W * H + 2\<close> calls one returns
  \<open>null\<close>.
\<close>

theorem uniform_sample_single_pattern:
  assumes "uniform_sample img w h px" and "0 < w" and "0 < h"
    and "\<forall>rnd \<in> set rnds. 0 \<le> rnd 0 \<and> rnd 0 < 1"
  shows "\<exists>st0 outs st. setup_engine W H 1 r img w h = Inr st0
        \<and> patterns st0 = [[[map Some px]]] \<and> frequencies st0 = [12 * (w * h)]
        \<and> adjacencies st0 = [[[0], [0], [0], [0]]]
        \<and> draws W H st0 rnds = Some (outs, st)
        \<and> Undefined \<notin> set outs
        \<and> wave st = map (\<lambda>c. (c, [Some 0])) [0..<W * H]
        \<and> (W * H + 2 \<le> length rnds \<longrightarrow> Null \<in> set outs)"
proof -
  let ?st0 = "\<lparr> wave = map (\<lambda>i. (i, [Some 0])) [0..<W * H],
           adjacencies = [[[0], [0], [0], [0]]],
           entropy = AList.update (nat \<lfloor>r * real (W * H)\<rfloor>) 0 (map (\<lambda>i. (i, 1)) [0..<W * H]),
           patterns = [[[map Some px]]],
           frequencies = [12 * (w * h)] \<rparr>"
  have s: "setup_engine W H 1 r img w h = Inr ?st0"
    by (rule setup_uniform [OF assms(1-3)])
  have inv: "single_pattern_state W H ?st0"
    using assms(2,3) by (simp add: single_pattern_state_def)
  from draws_single [OF inv assms(4)] obtain outs st where
    ds: "draws W H ?st0 rnds = Some (outs, st)" and u: "Undefined \<notin> set outs"
    and i: "single_pattern_state W H st"
    and n: "length (entropy ?st0) < length rnds \<longrightarrow> Null \<in> set outs"
    by blast
  have "length (entropy ?st0) \<le> W * H + 1"
    using length_update_le [of "nat \<lfloor>r * real (W * H)\<rfloor>" 0 "map (\<lambda>i. (i, 1)) [0..<W * H]"] by simp
  with n have "W * H + 2 \<le> length rnds \<longrightarrow> Null \<in> set outs"
    by auto
  with s ds u i show ?thesis
    by (auto simp: single_pattern_state_def)
qed


theorem uniform_sample_single_pattern_witness:
  "\<exists>st0 outs st. setup_engine 2 1 1 (1 / 2) [7, 7, 7, 7] 1 1 = Inr st0
        \<and> patterns st0 = [[[map Some [7, 7, 7, 7]]]] \<and> frequencies st0 = [12 * (1 * 1)]
        \<and> adjacencies st0 = [[[0], [0], [0], [0]]]
        \<and> draws 2 1 st0 [\<lambda>_. 0, \<lambda>_. 0, \<lambda>_. 0, \<lambda>_. 0] = Some (outs, st)
        \<and> Undefined \<notin> set outs
        \<and> wave st = map (\<lambda>c. (c, [Some 0])) [0..<2 * 1]
        \<and> (2 * 1 + 2 \<le> length ([\<lambda>_. 0, \<lambda>_. 0, \<lambda>_. 0, \<lambda>_. 0] :: (nat \<Rightarrow> real) list) \<longrightarrow> Null \<in> set outs)"
proof -
  have u: "uniform_sample [7, 7, 7, 7] 1 1 [7, 7, 7, 7]"
    by (simp add: uniform_sample_def)
  have r: "\<forall>rnd \<in> set ([\<lambda>_. 0, \<lambda>_. 0, \<lambda>_. 0, \<lambda>_. 0] :: (nat \<Rightarrow> real) list). 0 \<le> rnd 0 \<and> rnd 0 < 1"
    by simp
  show ?thesis
    by (rule uniform_sample_single_pattern [OF u _ _ r]) simp_all
qed

text \<open>C5 as stated fails: the sample of one pixel has pixel count 1, and the frequency
  of its one pattern is 12.\<close>

theorem uniform_frequency_counts_variants:
  "uniform_sample [7, 7, 7, 7] 1 1 [7, 7, 7, 7]
   \<and> setup_engine 2 1 1 0 [7, 7, 7, 7] 1 1 = Inr state1
   \<and> length (patterns state1) = 1
   \<and> frequencies state1 = [12]
   \<and> frequencies state1 \<noteq> [1 * 1]"
  by code_simp

end
